theory Spec2Isabelle
  imports Complex_Main "HOL-Library.Word"
begin

section \<open>Python errors and numpy scalars\<close>

text \<open>
  The exceptions that the modelled functions of \<^verbatim>\<open>app.py\<close> can raise. A function that can
  raise returns \<open>py_error + 'a\<close>, with \<open>Inl\<close> for the exception.
\<close>

datatype py_error = IndexError | KeyError | ValueError | ZeroDivisionError | OverflowError

type_synonym uint8 = "8 word"

definition MISPLACED :: uint8 where
  "MISPLACED = 1"

definition EXACT :: uint8 where
  "EXACT = 2"

section \<open>Pattern Engine: \<^verbatim>\<open>generate_pattern_matrix\<close>\<close>

text \<open>
  \<^verbatim>\<open>generate_pattern_matrix(words1, words2)\<close> works on arrays indexed by the pair
  \<open>(a, b)\<close> of a guess and an answer; every numpy statement of it acts independently on
  each cell \<open>(a, b)\<close>. The model follows one cell, that is
  \<^verbatim>\<open>generate_pattern_matrix([guess], [answer])[0, 0]\<close>, the call that
  \<^verbatim>\<open>get_pattern\<close> makes. \<open>equality_grid[a, b]\<close> is then an \<open>nl \<times> nl\<close> table of
  booleans and \<open>full_pattern_matrix[a, b]\<close> a vector of \<open>nl\<close> bytes, with \<open>nl\<close> the length
  of the guess.
\<close>

type_synonym eq_grid = "bool list list"

text \<open>\<^verbatim>\<open>words_to_int_arrays\<close>: the letters of one word as bytes.\<close>

definition words_to_int_arrays :: "string \<Rightarrow> uint8 list" where
  "words_to_int_arrays w = map (\<lambda>c. of_char c) w"

text \<open>
  \<^verbatim>\<open>equality_grid[:, :, i, j] = np.equal.outer(word_arr1[:, i], word_arr2[:, j])\<close> for
  \<open>i, j < nl\<close>. Reading \<^verbatim>\<open>word_arr2[:, j]\<close> with \<open>j\<close> beyond the answer's length is an
  IndexError, checked by the caller below.
\<close>

definition equality_grid :: "string \<Rightarrow> string \<Rightarrow> eq_grid" where
  "equality_grid guess answer =
     (let nl = length guess;
          word_arr1 = words_to_int_arrays guess;
          word_arr2 = words_to_int_arrays answer
      in map (\<lambda>i. map (\<lambda>j. word_arr1 ! i = word_arr2 ! j) [0..<nl]) [0..<nl])"

definition put :: "eq_grid \<Rightarrow> nat \<Rightarrow> nat \<Rightarrow> bool \<Rightarrow> eq_grid" where
  "put eq i j v = eq[i := (eq ! i)[j := v]]"

text \<open>
  The inner loop of both passes:
  \<^verbatim>\<open>for k in range(nl): equality_grid[k, j] = False; equality_grid[i, k] = False\<close>
  (the green pass calls it with \<open>j = i\<close>).
\<close>

definition cover :: "nat \<Rightarrow> nat \<Rightarrow> nat \<Rightarrow> eq_grid \<Rightarrow> eq_grid" where
  "cover nl i j eq = fold (\<lambda>k e. put (put e k j False) i k False) [0..<nl] eq"

type_synonym pass_state = "eq_grid \<times> uint8 list"

definition green_step :: "nat \<Rightarrow> nat \<Rightarrow> pass_state \<Rightarrow> pass_state" where
  "green_step nl i s =
     (let eq = fst s; full = snd s; matches = eq ! i ! i
      in if matches then (cover nl i i eq, full[i := EXACT]) else (eq, full))"

definition yellow_step :: "nat \<Rightarrow> nat \<times> nat \<Rightarrow> pass_state \<Rightarrow> pass_state" where
  "yellow_step nl ij s =
     (let eq = fst s; full = snd s; i = fst ij; j = snd ij; matches = eq ! i ! j
      in if matches then (cover nl i j eq, full[i := MISPLACED]) else (eq, full))"

text \<open>
  The state after the green and the yellow pass; \<^verbatim>\<open>it.product(range(nl), range(nl))\<close>
  runs \<open>i\<close> in the outer and \<open>j\<close> in the inner position, as \<open>List.product\<close> does.
\<close>

definition green_pass :: "string \<Rightarrow> string \<Rightarrow> pass_state" where
  "green_pass guess answer =
     (let nl = length guess
      in fold (green_step nl) [0..<nl] (equality_grid guess answer, replicate nl 0))"

definition yellow_pass :: "string \<Rightarrow> string \<Rightarrow> pass_state" where
  "yellow_pass guess answer =
     (let nl = length guess
      in fold (yellow_step nl) (List.product [0..<nl] [0..<nl]) (green_pass guess answer))"

text \<open>\<open>full_pattern_matrix[0, 0]\<close> when the function reaches its last statement.\<close>

definition full_pattern :: "string \<Rightarrow> string \<Rightarrow> uint8 list" where
  "full_pattern guess answer = snd (yellow_pass guess answer)"

text \<open>
  \<^verbatim>\<open>(3**np.arange(nl)).astype(np.uint8)\<close>: the powers of three, cut to a byte, and
  \<^verbatim>\<open>np.dot\<close> of two \<open>uint8\<close> vectors, which multiplies and adds in \<open>uint8\<close>
  (modulo 256).
\<close>

definition powers_of_three :: "nat \<Rightarrow> uint8 list" where
  "powers_of_three nl = map (\<lambda>i. word_of_nat (3 ^ i)) [0..<nl]"

definition dot :: "uint8 list \<Rightarrow> uint8 list \<Rightarrow> uint8" where
  "dot xs ys = sum_list (map (\<lambda>(x, y). x * y) (zip xs ys))"

definition generate_pattern_matrix :: "string \<Rightarrow> string \<Rightarrow> py_error + uint8" where
  "generate_pattern_matrix guess answer =
     (let nl = length guess
      in if length answer < nl then Inl IndexError
         else Inr (dot (full_pattern guess answer) (powers_of_three nl)))"

section \<open>The cached pattern matrix: \<^verbatim>\<open>PATTERN_GRID_DATA\<close>\<close>

text \<open>
  What \<^verbatim>\<open>get_pattern_matrix\<close> leaves in the global \<^verbatim>\<open>PATTERN_GRID_DATA\<close> once it has loaded
  the matrix file: \<open>grid\<close>, the array read by \<^verbatim>\<open>np.load\<close> (taken as it is found in the
  file), and \<open>words_to_index\<close>, the dictionary \<^verbatim>\<open>dict(zip(get_word_list(), it.count()))\<close>.
  Reading the files is outside the model: both values are parameters.
\<close>

record pattern_grid_data =
  grid :: "uint8 list list"
  words_to_index :: "string \<rightharpoonup> nat"

text \<open>
  \<^verbatim>\<open>indices1 = [words_to_index[w] for w in words1]\<close> (a KeyError for a word that is not a
  key), the same for \<^verbatim>\<open>words2\<close>, then \<^verbatim>\<open>full_grid[np.ix_(indices1, indices2)]\<close> (an
  IndexError for an index outside the array).
\<close>

definition get_pattern_matrix ::
  "pattern_grid_data \<Rightarrow> string list \<Rightarrow> string list \<Rightarrow> py_error + uint8 list list" where
  "get_pattern_matrix d words1 words2 =
     (if \<exists>w\<in>set words1. words_to_index d w = None then Inl KeyError
      else if \<exists>w\<in>set words2. words_to_index d w = None then Inl KeyError
      else let indices1 = map (\<lambda>w. the (words_to_index d w)) words1;
               indices2 = map (\<lambda>w. the (words_to_index d w)) words2
           in if \<forall>i\<in>set indices1. i < length (grid d) \<and>
                   (\<forall>j\<in>set indices2. j < length (grid d ! i))
              then Inr (map (\<lambda>i. map (\<lambda>j. grid d ! i ! j) indices2) indices1)
              else Inl IndexError)"

text \<open>
  \<^verbatim>\<open>get_pattern\<close>: the cached entry when \<^verbatim>\<open>PATTERN_GRID_DATA\<close> is filled (\<open>Some d\<close>) and
  knows both words, the direct computation otherwise.
\<close>

definition get_pattern :: "pattern_grid_data option \<Rightarrow> string \<Rightarrow> string \<Rightarrow> py_error + uint8" where
  "get_pattern cache guess answer =
     (case cache of
        None \<Rightarrow> generate_pattern_matrix guess answer
      | Some d \<Rightarrow>
          if words_to_index d guess \<noteq> None \<and> words_to_index d answer \<noteq> None
          then (case get_pattern_matrix d [guess] [answer] of
                  Inl e \<Rightarrow> Inl e
                | Inr m \<Rightarrow> Inr (m ! 0 ! 0))
          else generate_pattern_matrix guess answer)"

section \<open>Possibility Reducer: \<^verbatim>\<open>get_possible_words\<close>\<close>

text \<open>
  \<^verbatim>\<open>all_patterns = get_pattern_matrix([guess], word_list).flatten()\<close>, then the words of
  \<^verbatim>\<open>word_list\<close> at the positions where \<^verbatim>\<open>all_patterns == pattern\<close>.
\<close>

definition get_possible_words ::
  "pattern_grid_data \<Rightarrow> string \<Rightarrow> uint8 \<Rightarrow> string list \<Rightarrow> py_error + string list" where
  "get_possible_words d guess pattern word_list =
     (case get_pattern_matrix d [guess] word_list of
        Inl e \<Rightarrow> Inl e
      | Inr m \<Rightarrow>
          (let all_patterns = concat m
           in Inr (map fst (filter (\<lambda>(w, p). p = pattern) (zip word_list all_patterns)))))"

section \<open>Frequency Prior Model\<close>

text \<open>
  Python floats are modelled as exact real numbers (\<open>real\<close>): rounding, underflow and the
  special values \<open>inf\<close> and \<open>nan\<close> of \<open>float64\<close> are outside the model; the OverflowError
  of \<^verbatim>\<open>math.exp\<close> is a branch of \<open>sigmoid\<close>. The frequency
  table that \<^verbatim>\<open>get_word_frequencies\<close> reads from the JSON file is a parameter, an
  association list in the dictionary's key order.
\<close>

text \<open>
  \<^verbatim>\<open>sigmoid\<close> calls \<^verbatim>\<open>math.exp(-x)\<close>, which raises OverflowError when the result is past
  the largest \<open>float64\<close>, that is when \<open>-x\<close> is above \<open>ln (2^1024)\<close>, about
  709.782712893384: \<open>exp_max\<close> is that bound, to twelve decimals. Below it the model
  returns the exact real \<open>1 / (1 + exp (- x))\<close>; the \<open>float64\<close> result is a rounding of that,
  and is exactly 1.0 once \<open>x\<close> is above about 37.
\<close>

definition exp_max :: real where
  "exp_max = 709782712893384 / 1000000000000"

definition sigmoid :: "real \<Rightarrow> py_error + real" where
  "sigmoid x = (if exp_max < - x then Inl OverflowError else Inr (1 / (1 + exp (- x))))"

text \<open>
  \<^verbatim>\<open>np.argsort\<close>: the indices that sort the values, ascending. numpy leaves the order of
  equal values open; the model keeps them in index order (a stable sort).
\<close>

definition argsort :: "real list \<Rightarrow> nat list" where
  "argsort xs = map snd (sort_key fst (zip xs [0..<length xs]))"

definition linspace :: "real \<Rightarrow> real \<Rightarrow> nat \<Rightarrow> real list" where
  "linspace start stop num =
     (if num = 1 then [start]
      else map (\<lambda>i. start + real i * ((stop - start) / real (num - 1))) [0..<num])"

text \<open>
  The loop \<^verbatim>\<open>for word, x in zip(sorted_words, xs): priors[word] = sigmoid(x)\<close>; it stops
  at the first \<open>x\<close> for which \<^verbatim>\<open>sigmoid\<close> raises.
\<close>

fun set_priors ::
  "(string \<times> real) list \<Rightarrow> (string \<rightharpoonup> real) \<Rightarrow> py_error + (string \<rightharpoonup> real)" where
  "set_priors [] priors = Inr priors"
| "set_priors ((word, x) # rest) priors =
     (case sigmoid x of
        Inl e \<Rightarrow> Inl e
      | Inr p \<Rightarrow> set_priors rest (priors(word \<mapsto> p)))"

definition get_frequency_based_priors ::
  "(string \<times> real) list \<Rightarrow> nat \<Rightarrow> real \<Rightarrow> py_error + (string \<rightharpoonup> real)" where
  "get_frequency_based_priors freq_map n_common width_under_sigmoid =
     (let words = map fst freq_map;
          freqs = map snd freq_map;
          arg_sort = argsort freqs;
          sorted_words = map (\<lambda>k. words ! k) arg_sort;
          x_width = width_under_sigmoid
      in if length words = 0 then Inl ZeroDivisionError
         else let c = x_width * (- (1 / 2) + real n_common / real (length words));
                  xs = linspace (c - x_width / 2) (c + x_width / 2) (length words)
              in set_priors (zip sorted_words xs) Map.empty)"


definition get_weights :: "string list \<Rightarrow> (string \<rightharpoonup> real) \<Rightarrow> py_error + real list" where
  "get_weights words priors =
     (if \<exists>w\<in>set words. priors w = None then Inl KeyError
      else let frequencies = map (\<lambda>w. the (priors w)) words;
               total = sum_list frequencies
           in if total = 0 then Inr (replicate (length frequencies) 0)
              else Inr (map (\<lambda>f. f / total) frequencies))"

section \<open>Entropy Scorer\<close>

text \<open>
  One row of \<^verbatim>\<open>get_pattern_distributions\<close>: for the patterns of one allowed word against
  the possible words, \<^verbatim>\<open>distributions[row, pattern_matrix[row, j]] += prob\<close> for every
  \<open>j, prob\<close> of \<^verbatim>\<open>enumerate(weights)\<close>, on a row of \<open>3**5\<close> zeros.
\<close>

definition row_distribution :: "uint8 list \<Rightarrow> real list \<Rightarrow> real list" where
  "row_distribution pats weights =
     fold (\<lambda>(p, prob) dist. dist[unat p := dist ! unat p + prob])
       (zip pats weights) (replicate (3 ^ 5) 0)"

text \<open>
  An IndexError leaves the loop when \<^verbatim>\<open>weights\<close> is longer than the matrix is wide, or
  when a pattern read from the matrix is not below \<open>3**5\<close>.
\<close>

definition get_pattern_distributions ::
  "pattern_grid_data \<Rightarrow> string list \<Rightarrow> string list \<Rightarrow> real list \<Rightarrow> py_error + real list list" where
  "get_pattern_distributions d allowed_words possible_words weights =
     (case get_pattern_matrix d allowed_words possible_words of
        Inl e \<Rightarrow> Inl e
      | Inr pattern_matrix \<Rightarrow>
          if length possible_words < length weights
             \<or> (\<exists>row\<in>set pattern_matrix. \<exists>p\<in>set (take (length weights) row). 3 ^ 5 \<le> unat p)
          then Inl IndexError
          else Inr (map (\<lambda>row. row_distribution row weights) pattern_matrix))"

text \<open>
  \<^verbatim>\<open>scipy.special.entr\<close> is \<open>-x log x\<close> for \<open>x > 0\<close>, \<open>0\<close> for \<open>x = 0\<close> and \<open>-inf\<close> for
  \<open>x < 0\<close>. The last value is no real number: the model leaves it unspecified, and every
  statement below is about weights that are not negative.
  \<^verbatim>\<open>scipy.stats.entropy(pk, base=2)\<close> divides \<open>pk\<close> by its sum, adds up \<open>entr\<close> and divides
  by \<open>log 2\<close>. The quotients and the sum are exact here. In \<open>float64\<close> a quotient of
  weights of very different size underflows to 0 and a sum absorbs a small term, so the
  exact value is the float the code returns only where no rounding occurs, as for the
  weights 1/2 and the values 0 and 1 of the examples below.
\<close>

definition entr :: "real \<Rightarrow> real" where
  "entr x = (if 0 < x then - x * ln x else if x = 0 then 0 else undefined)"

definition entropy :: "real list \<Rightarrow> real" where
  "entropy pk = (let total = sum_list pk
                 in sum_list (map (\<lambda>x. entr (x / total)) pk) / ln 2)"

definition entropy_of_distributions :: "real list list \<Rightarrow> real list" where
  "entropy_of_distributions distributions = map entropy distributions"

definition get_entropies ::
  "pattern_grid_data \<Rightarrow> string list \<Rightarrow> string list \<Rightarrow> real list \<Rightarrow> py_error + real list" where
  "get_entropies d allowed_words possible_words weights =
     (if sum_list weights = 0 then Inr (replicate (length allowed_words) 0)
      else (case get_pattern_distributions d allowed_words possible_words weights of
              Inl e \<Rightarrow> Inl e
            | Inr distributions \<Rightarrow> Inr (entropy_of_distributions distributions)))"

section \<open>Session state\<close>

text \<open>
  The keys of \<^verbatim>\<open>st.session_state\<close> that the modelled functions read or write, as the
  fields of a record (each with the prefix \<open>st_\<close>, since the functions have parameters
  of the same names). \<open>st_table\<close> holds the six rows \<^verbatim>\<open>'Guess 1'\<close> to \<^verbatim>\<open>'Guess 6'\<close> of five
  cells each, \<open>st_df\<close> the data frame made from it, \<open>st_suggestions\<close> the dictionary from
  a slot to its one pair of a word and a number, \<open>st_guess\<close> the text of the input field.
\<close>

record session_state =
  st_DICT_GUESSING :: "string list"
  st_DICT_ANSWERS :: "string list"
  st_guesses :: "string list"
  st_answer :: string
  st_unguessed :: string
  st_found :: string
  st_game_over :: bool
  st_game_won :: bool
  st_table :: "string list list"
  st_df :: "string list list"
  st_priors :: "string \<rightharpoonup> real"
  st_next_guess_map :: "string \<rightharpoonup> string"
  st_patterns :: "uint8 list"
  st_possibilities :: "string list"
  st_suggestions :: "nat \<rightharpoonup> string \<times> real"
  st_guess :: string

section \<open>Guess Selector: \<^verbatim>\<open>optimal_guess\<close>\<close>

text \<open>The slice \<^verbatim>\<open>xs[-10:]\<close>: the last ten elements, or all of them when there are fewer.\<close>

definition last_ten :: "'a list \<Rightarrow> 'a list" where
  "last_ten xs = drop (length xs - 10) xs"

text \<open>\<^verbatim>\<open>np.argmax\<close>: the first index of the greatest value; a ValueError on an empty array.\<close>

definition argmax :: "real list \<Rightarrow> py_error + nat" where
  "argmax xs = (if xs = [] then Inl ValueError
                else Inr (length (takeWhile (\<lambda>x. x \<noteq> Max (set xs)) xs)))"

text \<open>
  The loop \<^verbatim>\<open>for i in range(10): suggestions[i] = {top_guesses[i]: top_ent[i]}\<close>. An index
  beyond either list raises IndexError, and the slots written before it stay written.
\<close>

fun store_suggestions ::
  "nat list \<Rightarrow> string list \<Rightarrow> real list \<Rightarrow> (nat \<rightharpoonup> string \<times> real)
     \<Rightarrow> py_error option \<times> (nat \<rightharpoonup> string \<times> real)" where
  "store_suggestions [] top_guesses top_ent sugg = (None, sugg)"
| "store_suggestions (i # rest) top_guesses top_ent sugg =
     (if i < length top_guesses \<and> i < length top_ent
      then store_suggestions rest top_guesses top_ent (sugg(i \<mapsto> (top_guesses ! i, top_ent ! i)))
      else (Some IndexError, sugg))"

definition optimal_guess ::
  "pattern_grid_data \<Rightarrow> string list \<Rightarrow> string list \<Rightarrow> (string \<rightharpoonup> real) \<Rightarrow> session_state
     \<Rightarrow> (py_error + string) \<times> session_state" where
  "optimal_guess d allowed_words possible_words priors st =
     (if length possible_words = 1 then (Inr (possible_words ! 0), st)
      else
        (case get_weights possible_words priors of
           Inl e \<Rightarrow> (Inl e, st)
         | Inr weights \<Rightarrow>
             (case get_entropies d allowed_words possible_words weights of
                Inl e \<Rightarrow> (Inl e, st)
              | Inr ents \<Rightarrow>
                  (let top_ent = last_ten (sort ents);
                       top_i = rev (sort (last_ten (argsort ents)));
                       top_guesses = map (\<lambda>num. allowed_words ! num) top_i;
                       stored = store_suggestions [0..<10] top_guesses top_ent Map.empty;
                       st' = st\<lparr>st_suggestions := snd stored\<rparr>
                   in (case fst stored of
                         Some e \<Rightarrow> (Inl e, st')
                       | None \<Rightarrow>
                           (case argmax ents of
                              Inl e \<Rightarrow> (Inl e, st')
                            | Inr k \<Rightarrow> (Inr (allowed_words ! k), st')))))))"

section \<open>Memoised selection: \<^verbatim>\<open>get_next_guess\<close>\<close>

text \<open>
  \<^verbatim>\<open>pattern_to_int_list\<close>: five times, append \<^verbatim>\<open>curr % 3\<close> and go on with \<^verbatim>\<open>curr // 3\<close>.
\<close>

definition pattern_to_int_list :: "uint8 \<Rightarrow> uint8 list" where
  "pattern_to_int_list pattern =
     fst (fold (\<lambda>x (result, curr). (result @ [curr mod 3], curr div 3)) [0..<5] ([], pattern))"

text \<open>\<^verbatim>\<open>str\<close> of one of the digits above; each is below 3, so it is one character.\<close>

definition str_digit :: "uint8 \<Rightarrow> string" where
  "str_digit x = [char_of (48 + unat x)]"

text \<open>
  The key of the memo table:
  \<^verbatim>\<open>"".join(str(g) + "".join(map(str, pattern_to_int_list(p))) for g, p in zip(guesses, patterns))\<close>.
\<close>

definition phash_of :: "string list \<Rightarrow> uint8 list \<Rightarrow> string" where
  "phash_of guesses patterns =
     concat (map (\<lambda>(g, p). g @ concat (map str_digit (pattern_to_int_list p)))
               (zip guesses patterns))"

definition get_next_guess ::
  "pattern_grid_data \<Rightarrow> string list \<Rightarrow> uint8 list \<Rightarrow> string list \<Rightarrow> session_state
     \<Rightarrow> (py_error + string) \<times> session_state" where
  "get_next_guess d guesses patterns possibilities st =
     (let phash = phash_of guesses patterns
      in if st_next_guess_map st phash = None
         then (let choices = st_DICT_ANSWERS st
               in (case optimal_guess d choices possibilities (st_priors st) st of
                     (Inl e, st') \<Rightarrow> (Inl e, st')
                   | (Inr g, st') \<Rightarrow>
                       (Inr g, st'\<lparr>st_next_guess_map := (st_next_guess_map st')(phash \<mapsto> g)\<rparr>)))
         else (Inr (the (st_next_guess_map st phash)), st))"

section \<open>Game input: \<^verbatim>\<open>input_guess\<close>\<close>

text \<open>\<^verbatim>\<open>str.upper\<close> on the ASCII letters (a character of the model is one byte).\<close>

definition upper :: "string \<Rightarrow> string" where
  "upper s = map (\<lambda>c. let n = (of_char c :: nat)
                       in if 97 \<le> n \<and> n \<le> 122 then char_of (n - 32) else c) s"

definition update_unguessed :: "string \<Rightarrow> session_state \<Rightarrow> string" where
  "update_unguessed guess st = filter (\<lambda>letter. letter \<notin> set guess) (st_unguessed st)"

definition update_found :: "string \<Rightarrow> session_state \<Rightarrow> string" where
  "update_found guess st =
     sort_key (\<lambda>c. of_char c :: nat)
       (fold (\<lambda>c found. if c \<notin> set found \<and> c \<in> set (st_answer st) then found @ [c] else found)
          guess (st_found st))"

definition initialize_table :: "string list list" where
  "initialize_table = replicate 6 (replicate 5 '''')"

text \<open>
  \<^verbatim>\<open>input_guess\<close> returns the state it leaves and either the message it shows with
  \<^verbatim>\<open>st.error\<close> (\<open>Inr (Some message)\<close>), nothing (\<open>Inr None\<close>), or the KeyError of a row
  \<^verbatim>\<open>'Guess n'\<close> that the table does not have. The first statement after reading the input
  appends the guess to the history; the checks come after it.
\<close>

definition input_guess :: "session_state \<Rightarrow> (py_error + string option) \<times> session_state" where
  "input_guess st =
     (let guess = upper (st_guess st);
          st1 = st\<lparr>st_guesses := st_guesses st @ [guess]\<rparr>
      in if length guess = 5
         then (if guess \<in> set (st_DICT_GUESSING st1)
               then (let n = length (st_guesses st1);
                         st2 = st1\<lparr>st_unguessed := update_unguessed guess st1\<rparr>;
                         st3 = st2\<lparr>st_found := update_found guess st2\<rparr>
                     in if length (st_table st3) < n then (Inl KeyError, st3)
                        else (let row = fold (\<lambda>i r. r[i := [guess ! i]]) [0..<5]
                                          (st_table st3 ! (n - 1));
                                  st4 = st3\<lparr>st_table := (st_table st3)[n - 1 := row]\<rparr>;
                                  st5 = st4\<lparr>st_df := st_table st4\<rparr>;
                                  st6 = st5\<lparr>st_game_over :=
                                          (guess = st_answer st5 \<or> length (st_guesses st5) = 6)\<rparr>;
                                  st7 = st6\<lparr>st_game_won := (guess = st_answer st6)\<rparr>
                              in (Inr None, st7\<lparr>st_guess := ''''\<rparr>)))
               else (Inr (Some ''Please enter a valid guess.''), st1\<lparr>st_guess := ''''\<rparr>))
         else (Inr (Some ''Please enter a 5-letter word.''), st1\<lparr>st_guess := ''''\<rparr>))"

section \<open>Invariants of the two passes\<close>

definition wf_grid :: "nat \<Rightarrow> eq_grid \<Rightarrow> bool" where
  "wf_grid n eq \<longleftrightarrow> length eq = n \<and> (\<forall>a<n. length (eq ! a) = n)"

definition sound_grid :: "string \<Rightarrow> string \<Rightarrow> eq_grid \<Rightarrow> bool" where
  "sound_grid guess answer eq \<longleftrightarrow>
     (\<forall>a<length guess. \<forall>b<length guess. eq ! a ! b \<longrightarrow> guess ! a = answer ! b)"

definition claimed :: "string \<Rightarrow> string \<Rightarrow> pass_state \<Rightarrow> (nat \<Rightarrow> nat) \<Rightarrow> bool" where
  "claimed guess answer s m \<longleftrightarrow>
     inj_on m {a. a < length guess \<and> snd s ! a \<noteq> 0} \<and>
     (\<forall>a<length guess. snd s ! a \<noteq> 0 \<longrightarrow>
        m a < length guess \<and> answer ! (m a) = guess ! a \<and>
        (snd s ! a = EXACT \<longleftrightarrow> m a = a) \<and>
        (\<forall>b<length guess. \<not> fst s ! a ! b) \<and>
        (\<forall>b<length guess. \<not> fst s ! b ! (m a)))"

definition pass_inv :: "string \<Rightarrow> string \<Rightarrow> pass_state \<Rightarrow> bool" where
  "pass_inv guess answer s \<longleftrightarrow>
     wf_grid (length guess) (fst s) \<and> length (snd s) = length guess \<and>
     sound_grid guess answer (fst s) \<and>
     (\<forall>a<length guess. snd s ! a = 0 \<or> snd s ! a = MISPLACED \<or> snd s ! a = EXACT) \<and>
     (\<forall>a<length guess. snd s ! a = EXACT \<longrightarrow> guess ! a = answer ! a) \<and>
     (\<exists>m. claimed guess answer s m)"

definition green_inv :: "string \<Rightarrow> string \<Rightarrow> nat \<Rightarrow> pass_state \<Rightarrow> bool" where
  "green_inv guess answer k s \<longleftrightarrow>
     pass_inv guess answer s \<and>
     (\<forall>a<length guess. k \<le> a \<longrightarrow> fst s ! a ! a = (guess ! a = answer ! a) \<and> snd s ! a = 0) \<and>
     (\<forall>a<k. guess ! a = answer ! a \<longrightarrow> snd s ! a = EXACT)"

definition yellow_inv :: "string \<Rightarrow> string \<Rightarrow> pass_state \<Rightarrow> bool" where
  "yellow_inv guess answer s \<longleftrightarrow>
     pass_inv guess answer s \<and>
     (\<forall>a<length guess. guess ! a = answer ! a \<longrightarrow> snd s ! a = EXACT)"

section \<open>A cache that agrees with the Pattern Engine\<close>

text \<open>
  The specification's invariant of the pattern matrix, for the words of a corpus \<open>ws\<close>:
  every word has an index inside the array, and the entry of a pair is what
  \<^verbatim>\<open>generate_pattern_matrix\<close> computes for it.
\<close>

definition cache_consistent :: "string list \<Rightarrow> pattern_grid_data \<Rightarrow> bool" where
  "cache_consistent ws d \<longleftrightarrow>
     (\<forall>g\<in>set ws. \<forall>a\<in>set ws.
        (case words_to_index d g of
           None \<Rightarrow> False
         | Some i \<Rightarrow>
             (case words_to_index d a of
                None \<Rightarrow> False
              | Some j \<Rightarrow> i < length (grid d) \<and> j < length (grid d ! i) \<and>
                          generate_pattern_matrix g a = Inr (grid d ! i ! j))))"

text \<open>The corpus of the specification's end-to-end scenario, with its pattern matrix.\<close>

definition example_words :: "string list" where
  "example_words = [''CRANE'', ''SLATE'', ''TRACE'']"

definition example_cache :: pattern_grid_data where
  "example_cache =
     \<lparr>grid = [[242, 180, 187], [180, 242, 207], [213, 181, 242]],
      words_to_index = map_of [(''CRANE'', 0), (''SLATE'', 1), (''TRACE'', 2)]\<rparr>"

section \<open>Concrete inputs\<close>

text \<open>
  A game on the three-word corpus: priors one half for every word, an empty history and
  the answer TRACE.
\<close>

definition example_priors :: "string \<rightharpoonup> real" where
  "example_priors = map_of [(''CRANE'', 1 / 2), (''SLATE'', 1 / 2), (''TRACE'', 1 / 2)]"

definition example_session :: session_state where
  "example_session =
     \<lparr>st_DICT_GUESSING = example_words, st_DICT_ANSWERS = example_words,
      st_guesses = [], st_answer = ''TRACE'',
      st_unguessed = ''ABCDEFGHIJKLMNOPQRSTUVWXYZ'', st_found = '''',
      st_game_over = False, st_game_won = False,
      st_table = initialize_table, st_df = initialize_table,
      st_priors = example_priors, st_next_guess_map = Map.empty,
      st_patterns = [], st_possibilities = example_words,
      st_suggestions = Map.empty, st_guess = ''''\<rparr>"

text \<open>
  A corpus of ten words with its pattern matrix. The first eight words hold neither M nor
  W, so none of them tells MATCH from WATCH.
\<close>

definition ten_words :: "string list" where
  "ten_words = [''CRANE'', ''SLATE'', ''TRACE'', ''PIOUS'', ''BUDGE'',
                ''FLOOR'', ''HONEY'', ''LUCKY'', ''MATCH'', ''WATCH'']"

definition ten_cache :: pattern_grid_data where
  "ten_cache =
     \<lparr>grid = [[242, 180, 187, 0, 162, 3, 108, 1, 10, 10],
              [180, 242, 207, 1, 162, 6, 81, 3, 36, 36],
              [213, 181, 242, 0, 162, 3, 81, 27, 64, 64],
              [0, 81, 0, 242, 27, 18, 9, 27, 0, 0],
              [162, 162, 162, 3, 242, 0, 81, 6, 0, 0],
              [81, 6, 81, 18, 0, 242, 9, 3, 0, 0],
              [36, 27, 27, 3, 27, 3, 242, 162, 1, 1],
              [9, 1, 9, 3, 6, 1, 162, 242, 9, 9],
              [30, 12, 66, 0, 0, 0, 81, 27, 242, 240],
              [30, 12, 66, 0, 0, 0, 81, 27, 240, 242]],
      words_to_index = map_of (zip ten_words [0..<10])\<rparr>"

definition ten_priors :: "string \<rightharpoonup> real" where
  "ten_priors = map_of [(''MATCH'', 1 / 2), (''WATCH'', 1 / 2)]"

text \<open>A frequency table of three words.\<close>

definition example_freq_map :: "(string \<times> real) list" where
  "example_freq_map = [(''CRANE'', 3), (''SLATE'', 5), (''TRACE'', 4)]"


section \<open>The distribution loop, one step\<close>

definition add_weight :: "uint8 \<times> real \<Rightarrow> real list \<Rightarrow> real list" where
  "add_weight = (\<lambda>(p, prob) acc. acc[unat p := acc ! unat p + prob])"

section \<open>Proofs: the Pattern Engine\<close>

lemma of_char_lt_256: "(of_char c :: nat) < 256"
proof -
  have "(of_char c :: nat) mod 256 = of_char c" by simp
  then show ?thesis by (metis mod_less_divisor zero_less_numeral)
qed

lemma of_char_uint8_eq_iff: "(of_char c :: uint8) = of_char d \<longleftrightarrow> c = d"
proof
  assume h: "(of_char c :: uint8) = of_char d"
  have "(of_nat (of_char c) :: uint8) = of_nat (of_char d)"
    using h by (simp only: of_nat_of_char)
  then have "(of_char c :: nat) = of_char d"
    using of_char_lt_256 [of c] of_char_lt_256 [of d]
    by (simp add: word_of_nat_eq_iff take_bit_nat_eq_self)
  then show "c = d" by simp
qed simp

lemma put_wf: "wf_grid n eq \<Longrightarrow> wf_grid n (put eq i j v)"
  unfolding wf_grid_def put_def
proof (intro conjI allI impI)
  fix a assume h: "length eq = n \<and> (\<forall>a<n. length (eq ! a) = n)" and a: "a < n"
  show "length (eq[i := (eq ! i)[j := v]] ! a) = n"
    using h a by (cases "a = i") simp_all
qed simp

lemma put_nth:
  "wf_grid n eq \<Longrightarrow> a < n \<Longrightarrow> b < n \<Longrightarrow>
   put eq i j v ! a ! b = (if a = i \<and> b = j then v else eq ! a ! b)"
  by (cases "a = i"; cases "b = j") (simp_all add: wf_grid_def put_def)

lemma cover_prefix:
  assumes "wf_grid n eq"
  shows "wf_grid n (fold (\<lambda>k e. put (put e k j False) i k False) [0..<m] eq) \<and>
    (\<forall>a<n. \<forall>b<n. fold (\<lambda>k e. put (put e k j False) i k False) [0..<m] eq ! a ! b
        = (eq ! a ! b \<and> \<not> (b = j \<and> a < m) \<and> \<not> (a = i \<and> b < m)))"
proof (induction m)
  case 0
  show ?case using assms by simp
next
  case (Suc m)
  let ?e = "fold (\<lambda>k e. put (put e k j False) i k False) [0..<m] eq"
  have wf: "wf_grid n ?e" using Suc by simp
  have wf1: "wf_grid n (put ?e m j False)" using wf by (rule put_wf)
  have wf2: "wf_grid n (put (put ?e m j False) i m False)" using wf1 by (rule put_wf)
  have nth: "\<forall>a<n. \<forall>b<n. put (put ?e m j False) i m False ! a ! b
      = (eq ! a ! b \<and> \<not> (b = j \<and> a < Suc m) \<and> \<not> (a = i \<and> b < Suc m))"
    using Suc wf wf1 by (auto simp: put_nth less_Suc_eq)
  show ?case using wf2 nth by simp
qed

lemma cover_wf: "wf_grid n eq \<Longrightarrow> wf_grid n (cover nl i j eq)"
  unfolding cover_def using cover_prefix by blast

lemma cover_nth:
  "wf_grid n eq \<Longrightarrow> a < n \<Longrightarrow> b < n \<Longrightarrow>
   cover n i j eq ! a ! b = (eq ! a ! b \<and> a \<noteq> i \<and> b \<noteq> j)"
  unfolding cover_def using cover_prefix [of n eq j i n] by auto

lemma equality_grid_wf: "wf_grid (length guess) (equality_grid guess answer)"
  by (simp add: wf_grid_def equality_grid_def Let_def)

lemma equality_grid_nth:
  "a < length guess \<Longrightarrow> b < length guess \<Longrightarrow> length guess \<le> length answer \<Longrightarrow>
   equality_grid guess answer ! a ! b = (guess ! a = answer ! b)"
  by (simp add: equality_grid_def Let_def words_to_int_arrays_def of_char_uint8_eq_iff)

lemma colours_nonzero: "MISPLACED \<noteq> 0" "EXACT \<noteq> 0" "MISPLACED \<noteq> EXACT"
  by (simp_all add: MISPLACED_def EXACT_def)

lemma claimed_unmarked:
  assumes "claimed guess answer s m" "i < length guess" "j < length guess" "fst s ! i ! j"
  shows "snd s ! i = 0" and "\<forall>a<length guess. snd s ! a \<noteq> 0 \<longrightarrow> m a \<noteq> j"
proof -
  show "snd s ! i = 0"
    using assms unfolding claimed_def by blast
  show "\<forall>a<length guess. snd s ! a \<noteq> 0 \<longrightarrow> m a \<noteq> j"
    using assms unfolding claimed_def by blast
qed

lemma claimed_step:
  assumes c: "claimed guess answer (eq, full) m"
    and wf: "wf_grid (length guess) eq" and len: "length full = length guess"
    and snd: "sound_grid guess answer eq"
    and i: "i < length guess" and j: "j < length guess" and hit: "eq ! i ! j"
    and v: "v \<noteq> 0" and vx: "v = EXACT \<longleftrightarrow> i = j"
  shows "claimed guess answer (cover (length guess) i j eq, full[i := v]) (m(i := j))"
proof -
  let ?n = "length guess"
  have fi: "full ! i = 0" using claimed_unmarked(1) [OF c i j] hit by simp
  have mj: "\<forall>a<?n. full ! a \<noteq> 0 \<longrightarrow> m a \<noteq> j"
    using claimed_unmarked(2) [OF c i j] hit by simp
  have old: "\<And>a. a < ?n \<Longrightarrow> a \<noteq> i \<Longrightarrow> full[i := v] ! a = full ! a"
    by simp
  have new: "full[i := v] ! i = v" using i len by simp
  have inj: "inj_on (m(i := j)) {a. a < ?n \<and> full[i := v] ! a \<noteq> 0}"
  proof (rule inj_onI)
    fix x y
    assume x: "x \<in> {a. a < ?n \<and> full[i := v] ! a \<noteq> 0}"
      and y: "y \<in> {a. a < ?n \<and> full[i := v] ! a \<noteq> 0}"
      and e: "(m(i := j)) x = (m(i := j)) y"
    show "x = y"
    proof (cases "x = i")
      case True
      show ?thesis
      proof (cases "y = i")
        case True
        with \<open>x = i\<close> show ?thesis by simp
      next
        case False
        then have "full ! y \<noteq> 0" "y < ?n" using y by simp_all
        then have "m y \<noteq> j" using mj by blast
        then show ?thesis using e True False by simp
      qed
    next
      case False
      then have fx: "full ! x \<noteq> 0" "x < ?n" using x by simp_all
      show ?thesis
      proof (cases "y = i")
        case True
        have "m x \<noteq> j" using mj fx by blast
        then show ?thesis using e True False by simp
      next
        case yi: False
        then have fy: "full ! y \<noteq> 0" "y < ?n" using y by simp_all
        have "m x = m y" using e False yi by simp
        moreover have "inj_on m {a. a < ?n \<and> full ! a \<noteq> 0}"
          using c unfolding claimed_def by simp
        ultimately show ?thesis using fx fy by (auto dest: inj_onD)
      qed
    qed
  qed
  have rest: "\<forall>a<?n. full[i := v] ! a \<noteq> 0 \<longrightarrow>
        (m(i := j)) a < ?n \<and> answer ! ((m(i := j)) a) = guess ! a \<and>
        (full[i := v] ! a = EXACT \<longleftrightarrow> (m(i := j)) a = a) \<and>
        (\<forall>b<?n. \<not> cover ?n i j eq ! a ! b) \<and>
        (\<forall>b<?n. \<not> cover ?n i j eq ! b ! ((m(i := j)) a))"
  proof (intro allI impI)
    fix a assume a: "a < ?n" and fa: "full[i := v] ! a \<noteq> 0"
    show "(m(i := j)) a < ?n \<and> answer ! ((m(i := j)) a) = guess ! a \<and>
        (full[i := v] ! a = EXACT \<longleftrightarrow> (m(i := j)) a = a) \<and>
        (\<forall>b<?n. \<not> cover ?n i j eq ! a ! b) \<and>
        (\<forall>b<?n. \<not> cover ?n i j eq ! b ! ((m(i := j)) a))"
    proof (cases "a = i")
      case True
      have "answer ! j = guess ! i"
        using snd i j hit unfolding sound_grid_def by auto
      then show ?thesis using True i j wf len vx by (auto simp: cover_nth)
    next
      case False
      then have "full ! a \<noteq> 0" using fa by simp
      then have "m a < ?n \<and> answer ! (m a) = guess ! a \<and> (full ! a = EXACT \<longleftrightarrow> m a = a) \<and>
        (\<forall>b<?n. \<not> eq ! a ! b) \<and> (\<forall>b<?n. \<not> eq ! b ! (m a))"
        using c a unfolding claimed_def by simp
      then show ?thesis using False a wf by (simp add: cover_nth)
    qed
  qed
  show ?thesis unfolding claimed_def using inj rest by simp
qed

lemma pass_inv_step:
  assumes inv: "pass_inv guess answer (eq, full)"
    and i: "i < length guess" and j: "j < length guess" and hit: "eq ! i ! j"
    and v: "(v = MISPLACED \<and> i \<noteq> j) \<or> (v = EXACT \<and> i = j)"
  shows "pass_inv guess answer (cover (length guess) i j eq, full[i := v])"
proof -
  let ?n = "length guess"
  have wf: "wf_grid ?n eq" and len: "length full = ?n" and snd: "sound_grid guess answer eq"
    using inv unfolding pass_inv_def by simp_all
  obtain m where c: "claimed guess answer (eq, full) m"
    using inv unfolding pass_inv_def by blast
  have v0: "v \<noteq> 0" using v colours_nonzero by auto
  have vx: "v = EXACT \<longleftrightarrow> i = j" using v colours_nonzero by auto
  have c': "claimed guess answer (cover ?n i j eq, full[i := v]) (m(i := j))"
    using claimed_step [OF c wf len snd i j hit v0 vx] .
  have wf': "wf_grid ?n (cover ?n i j eq)" using wf by (rule cover_wf)
  have snd': "sound_grid guess answer (cover ?n i j eq)"
    using snd wf unfolding sound_grid_def by (simp add: cover_nth)
  have col: "\<forall>a<?n. full[i := v] ! a = 0 \<or> full[i := v] ! a = MISPLACED \<or> full[i := v] ! a = EXACT"
  proof (intro allI impI)
    fix a assume "a < ?n"
    then show "full[i := v] ! a = 0 \<or> full[i := v] ! a = MISPLACED \<or> full[i := v] ! a = EXACT"
      using inv v len unfolding pass_inv_def by (cases "a = i") auto
  qed
  have ex: "\<forall>a<?n. full[i := v] ! a = EXACT \<longrightarrow> guess ! a = answer ! a"
  proof (intro allI impI)
    fix a assume a: "a < ?n" and e: "full[i := v] ! a = EXACT"
    show "guess ! a = answer ! a"
    proof (cases "a = i")
      case True
      then have "v = EXACT" using e i len by simp
      then have "i = j" using v colours_nonzero by auto
      then show ?thesis using snd i hit True unfolding sound_grid_def by auto
    next
      case False
      then show ?thesis using inv a e unfolding pass_inv_def by simp
    qed
  qed
  show ?thesis
    unfolding pass_inv_def using wf' len snd' col ex c' by auto
qed

lemma fold_invariant:
  "P s \<Longrightarrow> (\<And>x t. x \<in> set xs \<Longrightarrow> P t \<Longrightarrow> P (f x t)) \<Longrightarrow> P (fold f xs s)"
  by (induction xs arbitrary: s) simp_all

lemma pass_inv_init:
  assumes "length guess \<le> length answer"
  shows "pass_inv guess answer (equality_grid guess answer, replicate (length guess) 0)"
proof -
  let ?s = "(equality_grid guess answer, replicate (length guess) (0::uint8))"
  have none: "{a. a < length guess \<and> snd ?s ! a \<noteq> 0} = {}" by auto
  have "claimed guess answer ?s id"
    unfolding claimed_def none by simp
  then have "\<exists>m. claimed guess answer ?s m" by blast
  then show ?thesis
    unfolding pass_inv_def sound_grid_def
    using assms colours_nonzero by (simp add: equality_grid_wf equality_grid_nth)
qed

lemma green_inv_init:
  assumes "length guess \<le> length answer"
  shows "green_inv guess answer 0 (equality_grid guess answer, replicate (length guess) 0)"
  unfolding green_inv_def using pass_inv_init [OF assms] assms
  by (simp add: equality_grid_nth)

lemma green_inv_step:
  assumes g: "green_inv guess answer k s" and k: "k < length guess"
  shows "green_inv guess answer (Suc k) (green_step (length guess) k s)"
proof (cases "fst s ! k ! k")
  case True
  obtain eq full where s: "s = (eq, full)" by (cases s)
  have inv: "pass_inv guess answer (eq, full)" using g s unfolding green_inv_def by simp
  have hit: "eq ! k ! k" using True s by simp
  have wf: "wf_grid (length guess) eq" and len: "length full = length guess"
    using inv unfolding pass_inv_def by simp_all
  have step: "green_step (length guess) k s = (cover (length guess) k k eq, full[k := EXACT])"
    using True s by (simp add: green_step_def)
  have inv': "pass_inv guess answer (cover (length guess) k k eq, full[k := EXACT])"
    using pass_inv_step [OF inv k k hit] by simp
  have later: "\<forall>a<length guess. Suc k \<le> a \<longrightarrow>
      cover (length guess) k k eq ! a ! a = (guess ! a = answer ! a) \<and> full[k := EXACT] ! a = 0"
    using g s wf unfolding green_inv_def by (simp add: cover_nth)
  have earlier: "\<forall>a<Suc k. guess ! a = answer ! a \<longrightarrow> full[k := EXACT] ! a = EXACT"
  proof (intro allI impI)
    fix a assume "a < Suc k" and "guess ! a = answer ! a"
    then show "full[k := EXACT] ! a = EXACT"
      using g s k len unfolding green_inv_def by (cases "a = k") simp_all
  qed
  show ?thesis unfolding green_inv_def step using inv' later earlier by simp
next
  case False
  have step: "green_step (length guess) k s = s"
    using False by (simp add: green_step_def)
  have ne: "guess ! k \<noteq> answer ! k"
    using g k False unfolding green_inv_def by auto
  have earlier: "\<forall>a<Suc k. guess ! a = answer ! a \<longrightarrow> snd s ! a = EXACT"
  proof (intro allI impI)
    fix a assume "a < Suc k" and e: "guess ! a = answer ! a"
    then have "a < k" using ne by (cases "a = k") simp_all
    then show "snd s ! a = EXACT" using g e unfolding green_inv_def by simp
  qed
  show ?thesis unfolding step using g earlier unfolding green_inv_def by simp
qed

lemma green_inv_prefix:
  assumes "length guess \<le> length answer" "k \<le> length guess"
  shows "green_inv guess answer k
     (fold (green_step (length guess)) [0..<k]
        (equality_grid guess answer, replicate (length guess) 0))"
  using assms(2)
proof (induction k)
  case 0
  show ?case using green_inv_init [OF assms(1)] by simp
next
  case (Suc k)
  then show ?case using green_inv_step by simp
qed

lemma yellow_inv_green_pass:
  assumes "length guess \<le> length answer"
  shows "yellow_inv guess answer (green_pass guess answer)"
  using green_inv_prefix [OF assms, of "length guess"]
  unfolding yellow_inv_def green_inv_def green_pass_def Let_def by simp

lemma yellow_inv_step:
  assumes y: "yellow_inv guess answer s" and i: "i < length guess" and j: "j < length guess"
  shows "yellow_inv guess answer (yellow_step (length guess) (i, j) s)"
proof (cases "fst s ! i ! j")
  case True
  obtain eq full where s: "s = (eq, full)" by (cases s)
  have inv: "pass_inv guess answer (eq, full)" using y s unfolding yellow_inv_def by simp
  have hit: "eq ! i ! j" using True s by simp
  have len: "length full = length guess" using inv unfolding pass_inv_def by simp
  obtain m where c: "claimed guess answer (eq, full) m"
    using inv unfolding pass_inv_def by blast
  have fi: "full ! i = 0" using claimed_unmarked(1) [OF c i j] hit by simp
  have ne: "guess ! i \<noteq> answer ! i"
    using y s i fi colours_nonzero unfolding yellow_inv_def by auto
  have step: "yellow_step (length guess) (i, j) s
      = (cover (length guess) i j eq, full[i := MISPLACED])"
    using True s by (simp add: yellow_step_def)
  have "i \<noteq> j" using ne inv i hit unfolding pass_inv_def sound_grid_def by auto
  then have inv': "pass_inv guess answer (cover (length guess) i j eq, full[i := MISPLACED])"
    using pass_inv_step [OF inv i j hit] by simp
  have keep: "\<forall>a<length guess. guess ! a = answer ! a \<longrightarrow> full[i := MISPLACED] ! a = EXACT"
  proof (intro allI impI)
    fix a assume "a < length guess" and e: "guess ! a = answer ! a"
    then show "full[i := MISPLACED] ! a = EXACT"
      using y s ne unfolding yellow_inv_def by (cases "a = i") simp_all
  qed
  show ?thesis unfolding yellow_inv_def step using inv' keep by simp
next
  case False
  then show ?thesis using y by (simp add: yellow_step_def)
qed

lemma yellow_inv_yellow_pass:
  assumes "length guess \<le> length answer"
  shows "yellow_inv guess answer (yellow_pass guess answer)"
  unfolding yellow_pass_def Let_def
proof (rule fold_invariant)
  show "yellow_inv guess answer (green_pass guess answer)"
    using assms by (rule yellow_inv_green_pass)
next
  fix x t
  assume x: "x \<in> set (List.product [0..<length guess] [0..<length guess])"
    and t: "yellow_inv guess answer t"
  obtain i j where ij: "x = (i, j)" by (cases x)
  have "i < length guess" "j < length guess" using x ij by simp_all
  then show "yellow_inv guess answer (yellow_step (length guess) x t)"
    unfolding ij using t by (simp add: yellow_inv_step)
qed

text \<open>Consequences for the finished colour vector.\<close>

lemma full_pattern_length:
  "length guess \<le> length answer \<Longrightarrow> length (full_pattern guess answer) = length guess"
  using yellow_inv_yellow_pass [of guess answer]
  unfolding yellow_inv_def pass_inv_def full_pattern_def by simp

lemma full_pattern_colours:
  "length guess \<le> length answer \<Longrightarrow> a < length guess \<Longrightarrow>
   full_pattern guess answer ! a = 0 \<or> full_pattern guess answer ! a = MISPLACED
   \<or> full_pattern guess answer ! a = EXACT"
  using yellow_inv_yellow_pass [of guess answer]
  unfolding yellow_inv_def pass_inv_def full_pattern_def by simp

lemma full_pattern_exact_iff:
  "length guess \<le> length answer \<Longrightarrow> a < length guess \<Longrightarrow>
   full_pattern guess answer ! a = EXACT \<longleftrightarrow> guess ! a = answer ! a"
  using yellow_inv_yellow_pass [of guess answer]
  unfolding yellow_inv_def pass_inv_def full_pattern_def by auto

lemma full_pattern_matching:
  assumes "length guess \<le> length answer"
  shows "\<exists>m. inj_on m {a. a < length guess \<and> full_pattern guess answer ! a \<noteq> 0} \<and>
     (\<forall>a<length guess. full_pattern guess answer ! a \<noteq> 0 \<longrightarrow>
        m a < length guess \<and> answer ! (m a) = guess ! a \<and>
        (full_pattern guess answer ! a = EXACT \<longleftrightarrow> m a = a))"
proof -
  obtain m where "claimed guess answer (yellow_pass guess answer) m"
    using yellow_inv_yellow_pass [OF assms] unfolding yellow_inv_def pass_inv_def by blast
  then show ?thesis unfolding claimed_def full_pattern_def by blast
qed

lemma card_positions: "card {a. a < length xs \<and> P a} = length (filter P [0..<length xs])"
proof -
  have "card (set (filter P [0..<length xs])) = length (filter P [0..<length xs])"
    by (rule distinct_card) simp
  moreover have "set (filter P [0..<length xs]) = {a. a < length xs \<and> P a}" by auto
  ultimately show ?thesis by (simp only:)
qed

lemma count_list_card: "count_list xs c = card {b. b < length xs \<and> xs ! b = c}"
proof -
  have "count_list xs c = length (filter ((=) c) xs)"
    by (simp add: count_list_eq_length_filter)
  also have "\<dots> = card {b. b < length xs \<and> c = xs ! b}"
    by (simp add: length_filter_conv_card)
  also have "{b. b < length xs \<and> c = xs ! b} = {b. b < length xs \<and> xs ! b = c}" by auto
  finally show ?thesis .
qed

lemma claimed_count:
  assumes len: "length guess = length answer"
  shows "length (filter (\<lambda>a. guess ! a = c \<and> full_pattern guess answer ! a \<noteq> 0) [0..<length guess])
     \<le> count_list answer c"
proof -
  let ?n = "length guess"
  let ?A = "{a. a < ?n \<and> (guess ! a = c \<and> full_pattern guess answer ! a \<noteq> 0)}"
  let ?B = "{b. b < length answer \<and> answer ! b = c}"
  obtain m where inj: "inj_on m {a. a < ?n \<and> full_pattern guess answer ! a \<noteq> 0}"
    and cl: "\<forall>a<?n. full_pattern guess answer ! a \<noteq> 0 \<longrightarrow> m a < ?n \<and> answer ! (m a) = guess ! a"
    using full_pattern_matching [of guess answer] len by fastforce
  have injA: "inj_on m ?A" using inj by (rule inj_on_subset) auto
  have sub: "m ` ?A \<subseteq> ?B" using cl len by auto
  have "card ?A \<le> card ?B"
    using injA sub by (intro card_inj_on_le) simp_all
  then show ?thesis
    using card_positions [of guess "\<lambda>a. guess ! a = c \<and> full_pattern guess answer ! a \<noteq> 0"]
    by (simp add: count_list_card)
qed

lemma powers_of_three_5: "powers_of_three 5 = [1, 3, 9, 27, 81]"
  by code_simp

lemma length_5_cases: "length xs = 5 \<Longrightarrow> \<exists>a b c d e. xs = [a, b, c, d, e]"
  by (auto simp: eval_nat_numeral length_Suc_conv)

lemma colour_le_2:
  "x = 0 \<or> x = MISPLACED \<or> x = EXACT \<Longrightarrow> unat (x :: uint8) \<le> 2"
  by (auto simp: MISPLACED_def EXACT_def)

lemma unat_dot_5:
  fixes a b c d e :: uint8
  assumes "unat a \<le> 2" "unat b \<le> 2" "unat c \<le> 2" "unat d \<le> 2" "unat e \<le> 2"
  shows "unat (dot [a, b, c, d, e] (powers_of_three 5))
     = unat a + unat b * 3 + unat c * 9 + unat d * 27 + unat e * 81"
proof -
  let ?n = "unat a + unat b * 3 + unat c * 9 + unat d * 27 + unat e * 81"
  have "dot [a, b, c, d, e] (powers_of_three 5) = (word_of_nat ?n :: uint8)"
    by (simp add: dot_def powers_of_three_5)
  moreover have "?n < 2 ^ LENGTH(8)" using assms by simp
  ultimately show ?thesis by (simp only: unat_of_nat mod_less)
qed

lemma sum_5: "(\<Sum>i<5. f i) = f 0 + f 1 + f 2 + f 3 + (f (4::nat) :: nat)"
proof -
  have "{..<5::nat} = {0, 1, 2, 3, 4}" by auto
  then show ?thesis by simp
qed

lemma five_letter_dot:
  assumes "length guess = 5" and "length answer = 5"
  shows "unat (dot (full_pattern guess answer) (powers_of_three 5))
           = (\<Sum>i<5. unat (full_pattern guess answer ! i) * 3 ^ i)"
    and "unat (dot (full_pattern guess answer) (powers_of_three 5)) \<le> 242"
proof -
  have le: "length guess \<le> length answer" using assms by simp
  have len: "length (full_pattern guess answer) = 5"
    using full_pattern_length [OF le] assms by simp
  obtain a b c d e where full: "full_pattern guess answer = [a, b, c, d, e]"
    using length_5_cases [OF len] by blast
  have col: "\<And>k. k < 5 \<Longrightarrow> unat (full_pattern guess answer ! k) \<le> 2"
    using full_pattern_colours [OF le] assms colour_le_2 by simp
  have bounds: "unat a \<le> 2" "unat b \<le> 2" "unat c \<le> 2" "unat d \<le> 2" "unat e \<le> 2"
    using col [of 0] col [of 1] col [of 2] col [of 3] col [of 4] full by simp_all
  let ?p = "dot (full_pattern guess answer) (powers_of_three 5)"
  have val: "unat ?p = unat a + unat b * 3 + unat c * 9 + unat d * 27 + unat e * 81"
    unfolding full using bounds by (rule unat_dot_5)
  show "unat ?p = (\<Sum>i<5. unat (full_pattern guess answer ! i) * 3 ^ i)"
    using val by (simp add: sum_5 full)
  show "unat ?p \<le> 242" using val bounds by simp
qed

lemma same_word_all_exact:
  assumes "length guess = 5"
  shows "full_pattern guess guess = [EXACT, EXACT, EXACT, EXACT, EXACT]"
proof -
  have l5: "length (full_pattern guess guess) = 5"
    using full_pattern_length [of guess guess] assms by simp
  have ex: "\<And>k. k < 5 \<Longrightarrow> full_pattern guess guess ! k = EXACT"
    using full_pattern_exact_iff [of guess guess] assms by simp
  obtain a b c d e where f: "full_pattern guess guess = [a, b, c, d, e]"
    using length_5_cases [OF l5] by blast
  show ?thesis
    using ex [of 0] ex [of 1] ex [of 2] ex [of 3] ex [of 4] f by simp
qed

section \<open>Proofs: the cached matrix and the Possibility Reducer\<close>

lemma example_cache_consistent: "cache_consistent example_words example_cache"
  by code_simp

lemma consistent_entry:
  assumes "cache_consistent ws d" "g \<in> set ws" "a \<in> set ws"
  shows "\<exists>i j. words_to_index d g = Some i \<and> words_to_index d a = Some j \<and>
           i < length (grid d) \<and> j < length (grid d ! i) \<and>
           generate_pattern_matrix g a = Inr (grid d ! i ! j)"
  using assms unfolding cache_consistent_def
  by (fastforce split: option.splits)

lemma get_pattern_matrix_consistent:
  assumes c: "cache_consistent ws d" and s1: "set words1 \<subseteq> set ws" and s2: "set words2 \<subseteq> set ws"
  shows "get_pattern_matrix d words1 words2
     = Inr (map (\<lambda>g. map (\<lambda>a. grid d ! the (words_to_index d g) ! the (words_to_index d a)) words2) words1)"
proof -
  have k1: "\<forall>w\<in>set words1. words_to_index d w \<noteq> None"
    using consistent_entry [OF c] s1 by fastforce
  have k2: "\<forall>w\<in>set words2. words_to_index d w \<noteq> None"
    using consistent_entry [OF c] s2 by fastforce
  have inb: "\<forall>g\<in>set words1. the (words_to_index d g) < length (grid d) \<and>
      (\<forall>a\<in>set words2. the (words_to_index d a) < length (grid d ! the (words_to_index d g)))"
  proof (intro ballI conjI)
    fix g assume g: "g \<in> set words1"
    then have gw: "g \<in> set ws" using s1 by blast
    show "the (words_to_index d g) < length (grid d)"
      using consistent_entry [OF c gw gw] by auto
    fix a assume "a \<in> set words2"
    then have aw: "a \<in> set ws" using s2 by blast
    show "the (words_to_index d a) < length (grid d ! the (words_to_index d g))"
      using consistent_entry [OF c gw aw] by auto
  qed
  show ?thesis
    unfolding get_pattern_matrix_def using k1 k2 inb by (simp add: Let_def comp_def)
qed

lemma consistent_lookup:
  assumes "cache_consistent ws d" "g \<in> set ws" "a \<in> set ws"
  shows "generate_pattern_matrix g a
     = Inr (grid d ! the (words_to_index d g) ! the (words_to_index d a))"
  using consistent_entry [OF assms] by auto

lemma get_pattern_consistent:
  assumes "cache_consistent ws d" "g \<in> set ws" "a \<in> set ws"
  shows "get_pattern (Some d) g a = generate_pattern_matrix g a"
proof -
  have "get_pattern_matrix d [g] [a]
     = Inr [[grid d ! the (words_to_index d g) ! the (words_to_index d a)]]"
    using get_pattern_matrix_consistent [OF assms(1), of "[g]" "[a]"] assms by simp
  then show ?thesis
    using consistent_lookup [OF assms] consistent_entry [OF assms]
    by (auto simp: get_pattern_def)
qed

lemma filter_zip_map:
  "map fst (filter (\<lambda>(w, p). p = v) (zip xs (map f xs))) = filter (\<lambda>w. f w = v) xs"
  by (induction xs) simp_all

section \<open>Proofs: the Entropy Scorer\<close>

lemma entr_zero: "entr 0 = 0"
  by (simp add: entr_def)

lemma entr_one: "entr 1 = 0"
  by (simp add: entr_def)

lemma entr_nonneg: "0 \<le> q \<Longrightarrow> q \<le> 1 \<Longrightarrow> 0 \<le> entr q"
  by (cases "q = 0") (simp_all add: entr_def mult_nonneg_nonpos)

lemma entr_eq_0_iff: "0 \<le> q \<Longrightarrow> q \<le> 1 \<Longrightarrow> entr q = 0 \<longleftrightarrow> q = 0 \<or> q = 1"
  by (cases "q = 0") (auto simp: entr_def)

lemma member_le_sum_list_real:
  fixes xs :: "real list"
  assumes "\<forall>y\<in>set xs. 0 \<le> y" "x \<in> set xs"
  shows "x \<le> sum_list xs"
  using assms
proof (induction xs)
  case Nil
  then show ?case by simp
next
  case (Cons a xs)
  have nn: "0 \<le> sum_list xs" using Cons.prems(1) by (simp add: sum_list_nonneg)
  show ?case
  proof (cases "x = a")
    case True
    then show ?thesis using nn by simp
  next
    case False
    then have "x \<le> sum_list xs" using Cons by simp
    then show ?thesis using Cons.prems(1) by simp
  qed
qed

lemma sum_list_filter_split:
  fixes f :: "'a \<Rightarrow> real"
  shows "sum_list (map f zs)
     = sum_list (map f (filter P zs)) + sum_list (map f (filter (\<lambda>z. \<not> P z) zs))"
  by (induction zs) simp_all

lemma sum_list_filter_all:
  fixes f :: "'a \<Rightarrow> real"
  assumes "\<forall>z\<in>set zs. \<not> P z \<longrightarrow> f z = 0"
  shows "sum_list (map f (filter P zs)) = sum_list (map f zs)"
  using assms by (induction zs) simp_all

text \<open>The distribution loop.\<close>

lemma row_distribution_fold:
  "row_distribution pats weights = fold add_weight (zip pats weights) (replicate (3 ^ 5) 0)"
  by (simp add: row_distribution_def add_weight_def)

lemma fold_add_weight_length: "length (fold add_weight zs acc) = length acc"
  by (induction zs arbitrary: acc) (simp_all add: add_weight_def split: prod.splits)

lemma fold_add_weight_nth:
  assumes "b < length acc"
  shows "fold add_weight zs acc ! b
     = acc ! b + sum_list (map snd (filter (\<lambda>z. unat (fst z) = b) zs))"
  using assms
proof (induction zs arbitrary: acc)
  case Nil
  then show ?case by simp
next
  case (Cons z zs)
  obtain p w where z: "z = (p, w)" by (cases z)
  have len: "b < length (add_weight z acc)" using Cons.prems by (simp add: add_weight_def z)
  have "fold add_weight (z # zs) acc ! b = fold add_weight zs (add_weight z acc) ! b" by simp
  also have "\<dots> = add_weight z acc ! b + sum_list (map snd (filter (\<lambda>z. unat (fst z) = b) zs))"
    using Cons.IH [OF len] .
  also have "add_weight z acc ! b = acc ! b + (if unat p = b then w else 0)"
    using Cons.prems by (simp add: add_weight_def z)
  finally show ?case by (simp add: z)
qed

lemma row_distribution_length: "length (row_distribution pats weights) = 243"
  by (simp add: row_distribution_fold fold_add_weight_length)

lemma row_distribution_nth:
  "b < 243 \<Longrightarrow> row_distribution pats weights ! b
     = sum_list (map snd (filter (\<lambda>z. unat (fst z) = b) (zip pats weights)))"
  by (simp add: row_distribution_fold fold_add_weight_nth)

lemma sum_list_update_real:
  fixes xs :: "real list"
  shows "k < length xs \<Longrightarrow> sum_list (xs[k := v]) = sum_list xs - xs ! k + v"
proof (induction xs arbitrary: k)
  case Nil
  then show ?case by simp
next
  case (Cons a xs)
  then show ?case by (cases k) simp_all
qed

lemma fold_add_weight_sum:
  assumes "\<forall>z\<in>set zs. unat (fst z) < length acc"
  shows "sum_list (fold add_weight zs acc) = sum_list acc + sum_list (map snd zs)"
  using assms
proof (induction zs arbitrary: acc)
  case Nil
  then show ?case by simp
next
  case (Cons z zs)
  obtain p w where z: "z = (p, w)" by (cases z)
  have p: "unat p < length acc" using Cons.prems z by simp
  have len: "length (add_weight z acc) = length acc" by (simp add: add_weight_def z)
  have "sum_list (fold add_weight zs (add_weight z acc))
      = sum_list (add_weight z acc) + sum_list (map snd zs)"
    using Cons.IH [of "add_weight z acc"] Cons.prems len by simp
  moreover have "sum_list (add_weight z acc) = sum_list acc + w"
    using p by (simp add: add_weight_def z sum_list_update_real)
  ultimately show ?case by (simp add: z)
qed

lemma zip_fst_in_take:
  assumes "z \<in> set (zip xs ys)"
  shows "fst z \<in> set (take (length ys) xs)"
proof -
  obtain i where i: "i < length xs" "i < length ys" "z = (xs ! i, ys ! i)"
    using assms by (auto simp: set_zip)
  have "take (length ys) xs ! i = xs ! i" using i by simp
  moreover have "i < length (take (length ys) xs)" using i by simp
  ultimately show ?thesis using i(3) by (metis fst_conv nth_mem)
qed

lemma row_distribution_sum:
  assumes "\<forall>p\<in>set (take (length weights) pats). unat p < 243"
    and "length weights \<le> length pats"
  shows "sum_list (row_distribution pats weights) = sum_list weights"
proof -
  have "\<forall>z\<in>set (zip pats weights). unat (fst z) < length (replicate (3 ^ 5) (0::real))"
    using assms zip_fst_in_take [of _ pats weights] by simp
  then have "sum_list (row_distribution pats weights) = sum_list (map snd (zip pats weights))"
    unfolding row_distribution_fold by (simp add: fold_add_weight_sum sum_list_replicate)
  then show ?thesis using assms(2) by (simp add: map_snd_zip_take min_def)
qed

lemma sum_list_all_zero:
  fixes ys :: "real list"
  shows "\<forall>y\<in>set ys. y = 0 \<Longrightarrow> sum_list ys = 0"
  by (induction ys) simp_all

lemma row_distribution_nonneg:
  assumes "\<forall>w\<in>set weights. 0 \<le> w" "x \<in> set (row_distribution pats weights)"
  shows "0 \<le> x"
proof -
  obtain b where b: "b < 243" "x = row_distribution pats weights ! b"
    using assms(2) by (metis in_set_conv_nth row_distribution_length)
  have "\<forall>y\<in>set (map snd (filter (\<lambda>z. unat (fst z) = b) (zip pats weights))). 0 \<le> y"
    using assms(1) by (auto dest: set_zip_rightD)
  then have "0 \<le> sum_list (map snd (filter (\<lambda>z. unat (fst z) = b) (zip pats weights)))"
    by (intro sum_list_nonneg) blast
  then show ?thesis using b by (simp add: row_distribution_nth)
qed

lemma entropy_nonneg:
  assumes nn: "\<forall>x\<in>set pk. 0 \<le> x" and pos: "0 < sum_list pk"
  shows "0 \<le> entropy pk"
proof -
  have "\<forall>y\<in>set (map (\<lambda>x. entr (x / sum_list pk)) pk). 0 \<le> y"
  proof
    fix y assume "y \<in> set (map (\<lambda>x. entr (x / sum_list pk)) pk)"
    then obtain x where x: "x \<in> set pk" "y = entr (x / sum_list pk)" by auto
    have "0 \<le> x" using nn x by simp
    moreover have "x \<le> sum_list pk" using member_le_sum_list_real [OF nn x(1)] .
    ultimately show "0 \<le> y" using pos x(2) by (simp add: entr_nonneg)
  qed
  then have "0 \<le> sum_list (map (\<lambda>x. entr (x / sum_list pk)) pk)"
    by (intro sum_list_nonneg) blast
  then show ?thesis by (simp add: entropy_def Let_def)
qed

lemma entropy_eq_0_iff:
  assumes nn: "\<forall>x\<in>set pk. 0 \<le> x" and pos: "0 < sum_list pk"
  shows "entropy pk = 0 \<longleftrightarrow> (\<forall>x\<in>set pk. x = 0 \<or> x = sum_list pk)"
proof -
  let ?S = "sum_list pk"
  have range: "\<And>x. x \<in> set pk \<Longrightarrow> 0 \<le> x / ?S \<and> x / ?S \<le> 1"
    using nn pos member_le_sum_list_real [OF nn] by simp
  have terms: "\<forall>y\<in>set (map (\<lambda>x. entr (x / ?S)) pk). 0 \<le> y"
    using range by (auto simp: entr_nonneg)
  have "entropy pk = 0 \<longleftrightarrow> sum_list (map (\<lambda>x. entr (x / ?S)) pk) = 0"
    by (simp add: entropy_def Let_def)
  also have "\<dots> \<longleftrightarrow> (\<forall>y\<in>set (map (\<lambda>x. entr (x / ?S)) pk). y = 0)"
    using terms by (intro sum_list_nonneg_eq_0_iff) blast
  also have "\<dots> \<longleftrightarrow> (\<forall>x\<in>set pk. entr (x / ?S) = 0)" by auto
  also have "\<dots> \<longleftrightarrow> (\<forall>x\<in>set pk. x / ?S = 0 \<or> x / ?S = 1)"
    using range by (simp add: entr_eq_0_iff)
  also have "\<dots> \<longleftrightarrow> (\<forall>x\<in>set pk. x = 0 \<or> x = ?S)"
  proof -
    have "\<And>x. (x / ?S = 0 \<or> x / ?S = 1) \<longleftrightarrow> (x = 0 \<or> x = ?S)"
      using pos by auto
    then show ?thesis by simp
  qed
  finally show ?thesis .
qed

text \<open>One bucket holds everything exactly when the weighted patterns agree.\<close>

lemma one_bucket_iff:
  assumes len: "length pats = length weights"
    and nn: "\<forall>w\<in>set weights. 0 \<le> w"
    and small: "\<forall>p\<in>set pats. unat p < 243"
    and pos: "0 < sum_list weights"
  shows "(\<forall>x\<in>set (row_distribution pats weights). x = 0 \<or> x = sum_list weights)
     \<longleftrightarrow> (\<forall>j<length pats. \<forall>j'<length pats.
            weights ! j \<noteq> 0 \<and> weights ! j' \<noteq> 0 \<longrightarrow> pats ! j = pats ! j')"
    (is "?L \<longleftrightarrow> ?R")
proof
  let ?zs = "zip pats weights"
  let ?S = "sum_list weights"
  have total: "sum_list (map snd ?zs) = ?S" using len by simp
  have znn: "\<forall>z\<in>set ?zs. 0 \<le> snd z" using nn by (auto dest: set_zip_rightD)
  {
    assume L: ?L
    show ?R
    proof (intro allI impI)
      fix j j' assume j: "j < length pats" and j': "j' < length pats"
        and w: "weights ! j \<noteq> 0 \<and> weights ! j' \<noteq> 0"
      show "pats ! j = pats ! j'"
      proof (rule ccontr)
        assume ne: "pats ! j \<noteq> pats ! j'"
        let ?b = "unat (pats ! j)"
        let ?P = "\<lambda>z. unat (fst z) = ?b"
        have b: "?b < 243" using small j by simp
        have zj: "(pats ! j, weights ! j) \<in> set ?zs"
          using j len by (auto simp: set_zip)
        have zj': "(pats ! j', weights ! j') \<in> set ?zs"
          using j' len by (auto simp: set_zip)
        have wj: "0 < weights ! j" using w nn j len by (simp add: order_less_le)
        have wj': "0 < weights ! j'" using w nn j' len by (simp add: order_less_le)
        have in1: "weights ! j \<in> set (map snd (filter ?P ?zs))"
          using zj by force
        have nn1: "\<forall>y\<in>set (map snd (filter ?P ?zs)). 0 \<le> y" using znn by auto
        have "weights ! j \<le> sum_list (map snd (filter ?P ?zs))"
          using member_le_sum_list_real [OF nn1 in1] .
        then have "0 < row_distribution pats weights ! ?b"
          using wj b by (simp add: row_distribution_nth)
        moreover have "row_distribution pats weights ! ?b \<in> set (row_distribution pats weights)"
          using b by (simp add: row_distribution_length)
        ultimately have full: "row_distribution pats weights ! ?b = ?S"
          using L by force
        have "?S = sum_list (map snd (filter ?P ?zs))
              + sum_list (map snd (filter (\<lambda>z. \<not> ?P z) ?zs))"
          using sum_list_filter_split [of snd ?zs ?P] total by simp
        then have rest0: "sum_list (map snd (filter (\<lambda>z. \<not> ?P z) ?zs)) = 0"
          using full b by (simp add: row_distribution_nth)
        have "unat (pats ! j') \<noteq> ?b" using ne by (auto simp: word_unat_eq_iff)
        then have in2: "weights ! j' \<in> set (map snd (filter (\<lambda>z. \<not> ?P z) ?zs))"
          using zj' by force
        have nn2: "\<forall>y\<in>set (map snd (filter (\<lambda>z. \<not> ?P z) ?zs)). 0 \<le> y" using znn by auto
        have "weights ! j' \<le> sum_list (map snd (filter (\<lambda>z. \<not> ?P z) ?zs))"
          using member_le_sum_list_real [OF nn2 in2] .
        then show False using rest0 wj' by simp
      qed
    qed
  }
  {
    assume R: ?R
    show ?L
    proof
      fix x assume "x \<in> set (row_distribution pats weights)"
      then obtain b where b: "b < 243" and x: "x = row_distribution pats weights ! b"
        by (metis in_set_conv_nth row_distribution_length)
      let ?P = "\<lambda>z. unat (fst z) = b"
      have xb: "x = sum_list (map snd (filter ?P ?zs))"
        using x b by (simp add: row_distribution_nth)
      show "x = 0 \<or> x = ?S"
      proof (cases "\<exists>j<length pats. weights ! j \<noteq> 0 \<and> unat (pats ! j) = b")
        case True
        then obtain j where j: "j < length pats" "weights ! j \<noteq> 0" "unat (pats ! j) = b"
          by blast
        have "\<forall>z\<in>set ?zs. \<not> ?P z \<longrightarrow> snd z = 0"
        proof (intro ballI impI)
          fix z assume z: "z \<in> set ?zs" and np: "\<not> ?P z"
          obtain i where i: "i < length pats" "z = (pats ! i, weights ! i)"
            using z len by (auto simp: set_zip)
          have "pats ! i \<noteq> pats ! j" using np i j by auto
          then have "weights ! i = 0" using R i(1) j by blast
          then show "snd z = 0" using i by simp
        qed
        then have "sum_list (map snd (filter ?P ?zs)) = sum_list (map snd ?zs)"
          by (rule sum_list_filter_all)
        then show ?thesis using xb total by simp
      next
        case False
        have "\<forall>y\<in>set (map snd (filter ?P ?zs)). y = 0"
        proof
          fix y assume "y \<in> set (map snd (filter ?P ?zs))"
          then obtain z where z: "z \<in> set ?zs" "?P z" "y = snd z" by auto
          obtain i where i: "i < length pats" "z = (pats ! i, weights ! i)"
            using z(1) len by (auto simp: set_zip)
          then show "y = 0" using False z by auto
        qed
        then have "sum_list (map snd (filter ?P ?zs)) = 0"
          by (rule sum_list_all_zero)
        then show ?thesis using xb by simp
      qed
    qed
  }
qed

lemma row_entropy:
  assumes len: "length pats = length weights"
    and nn: "\<forall>w\<in>set weights. 0 \<le> w"
    and small: "\<forall>p\<in>set pats. unat p < 243"
    and pos: "0 < sum_list weights"
  shows "0 \<le> entropy (row_distribution pats weights)"
    and "entropy (row_distribution pats weights) = 0
     \<longleftrightarrow> (\<forall>j<length pats. \<forall>j'<length pats.
            weights ! j \<noteq> 0 \<and> weights ! j' \<noteq> 0 \<longrightarrow> pats ! j = pats ! j')"
proof -
  have s: "\<forall>p\<in>set (take (length weights) pats). unat p < 243"
    using small by (auto dest: in_set_takeD)
  have sum: "sum_list (row_distribution pats weights) = sum_list weights"
    using row_distribution_sum [OF s] len by simp
  have rnn: "\<forall>x\<in>set (row_distribution pats weights). 0 \<le> x"
    using row_distribution_nonneg [OF nn] by blast
  show "0 \<le> entropy (row_distribution pats weights)"
    using entropy_nonneg [OF rnn] sum pos by simp
  show "entropy (row_distribution pats weights) = 0
     \<longleftrightarrow> (\<forall>j<length pats. \<forall>j'<length pats.
            weights ! j \<noteq> 0 \<and> weights ! j' \<noteq> 0 \<longrightarrow> pats ! j = pats ! j')"
    using entropy_eq_0_iff [OF rnn] sum pos one_bucket_iff [OF len nn small pos] by simp
qed

lemma consistent_small:
  assumes c: "cache_consistent ws d" and five: "\<forall>w\<in>set ws. length w = 5"
    and g: "g \<in> set ws" and a: "a \<in> set ws"
  shows "unat (grid d ! the (words_to_index d g) ! the (words_to_index d a)) < 243"
proof -
  have "length g = 5" "length a = 5" using five g a by simp_all
  then have "generate_pattern_matrix g a
        = Inr (dot (full_pattern g a) (powers_of_three 5))"
    and "unat (dot (full_pattern g a) (powers_of_three 5)) \<le> 242"
    using five_letter_dot(2) [of g a] by (simp_all add: generate_pattern_matrix_def)
  then show ?thesis using consistent_lookup [OF c g a] by simp
qed

lemma get_entropies_zero_total:
  "sum_list weights = 0 \<Longrightarrow>
   get_entropies d allowed_words possible_words weights = Inr (replicate (length allowed_words) 0)"
  by (simp add: get_entropies_def)

lemma get_entropies_consistent:
  assumes c: "cache_consistent ws d" and five: "\<forall>w\<in>set ws. length w = 5"
    and a: "set allowed_words \<subseteq> set ws" and p: "set possible_words \<subseteq> set ws"
    and len: "length weights = length possible_words"
    and ne: "sum_list weights \<noteq> 0"
  shows "get_entropies d allowed_words possible_words weights
     = Inr (map (\<lambda>g. entropy (row_distribution
              (map (\<lambda>a. grid d ! the (words_to_index d g) ! the (words_to_index d a)) possible_words)
              weights)) allowed_words)"
proof -
  let ?G = "\<lambda>g a. grid d ! the (words_to_index d g) ! the (words_to_index d a)"
  let ?pm = "map (\<lambda>g. map (?G g) possible_words) allowed_words"
  have pm: "get_pattern_matrix d allowed_words possible_words = Inr ?pm"
    using get_pattern_matrix_consistent [OF c a p] .
  have ok: "\<not> (\<exists>row\<in>set ?pm. \<exists>q\<in>set (take (length weights) row). 3 ^ 5 \<le> unat q)"
  proof
    assume "\<exists>row\<in>set ?pm. \<exists>q\<in>set (take (length weights) row). 3 ^ 5 \<le> unat q"
    then obtain row q where row: "row \<in> set ?pm" and q: "q \<in> set (take (length weights) row)"
      and big: "3 ^ 5 \<le> unat q" by blast
    obtain g where g: "g \<in> set allowed_words" "row = map (?G g) possible_words"
      using row by auto
    have "q \<in> set row" using q by (rule in_set_takeD)
    then obtain b where b: "b \<in> set possible_words" "q = ?G g b" using g(2) by auto
    have "unat q < 243"
      using consistent_small [OF c five, of g b] g(1) b a p by auto
    then show False using big by simp
  qed
  have "get_pattern_distributions d allowed_words possible_words weights
      = Inr (map (\<lambda>row. row_distribution row weights) ?pm)"
    unfolding get_pattern_distributions_def pm using ok len by simp
  then show ?thesis
    using ne by (simp add: get_entropies_def entropy_of_distributions_def comp_def)
qed

section \<open>Proofs: the Guess Selector\<close>

lemma store_suggestions_fst:
  "fst (store_suggestions is top_guesses top_ent sugg)
     = (if \<forall>i\<in>set is. i < length top_guesses \<and> i < length top_ent then None
        else Some IndexError)"
  by (induction "is" arbitrary: sugg) auto

lemma length_last_ten: "length (last_ten xs) = min 10 (length xs)"
  by (auto simp: last_ten_def)

lemma length_argsort: "length (argsort xs) = length xs"
  by (simp add: argsort_def)

lemma get_entropies_length:
  assumes "get_entropies d allowed_words possible_words weights = Inr ents"
  shows "length ents = length allowed_words"
proof (cases "sum_list weights = 0")
  case True
  then show ?thesis using assms by (auto simp: get_entropies_def)
next
  case False
  then obtain ds where ds: "get_pattern_distributions d allowed_words possible_words weights = Inr ds"
    and e: "ents = entropy_of_distributions ds"
    using assms by (auto simp: get_entropies_def split: sum.splits)
  obtain pm where pm: "get_pattern_matrix d allowed_words possible_words = Inr pm"
    and dpm: "ds = map (\<lambda>row. row_distribution row weights) pm"
    using ds by (auto simp: get_pattern_distributions_def split: sum.splits if_splits)
  have "length pm = length allowed_words"
    using pm by (auto simp: get_pattern_matrix_def Let_def split: if_splits)
  then show ?thesis using e dpm by (simp add: entropy_of_distributions_def)
qed

lemma top_ten_stored:
  "fst (store_suggestions [0..<10] (map f (rev (sort (last_ten (argsort ents))))) (last_ten (sort ents)) sugg)
     = (if 10 \<le> length ents then None else Some IndexError)"
proof -
  have "(\<forall>i\<in>set [0..<10]. i < min 10 (length ents)) \<longleftrightarrow> 10 \<le> length ents"
    by auto
  then show ?thesis
    by (simp add: store_suggestions_fst length_last_ten length_argsort)
qed


lemma argmax_less:
  assumes "xs \<noteq> []"
  shows "\<exists>k. argmax xs = Inr k \<and> k < length xs \<and> xs ! k = Max (set xs) \<and>
            (\<forall>i<k. xs ! i < xs ! k)"
proof -
  let ?k = "length (takeWhile (\<lambda>x. x \<noteq> Max (set xs)) xs)"
  have mem: "Max (set xs) \<in> set xs" using assms by (intro Max_in) simp_all
  have "dropWhile (\<lambda>x. x \<noteq> Max (set xs)) xs \<noteq> []"
    using mem by simp
  moreover have "length xs = ?k + length (dropWhile (\<lambda>x. x \<noteq> Max (set xs)) xs)"
    by (metis length_append takeWhile_dropWhile_id)
  ultimately have lt: "?k < length xs" by simp
  have at: "xs ! ?k = Max (set xs)"
    using nth_length_takeWhile [OF lt] by simp
  have before: "\<forall>i<?k. xs ! i < xs ! ?k"
  proof (intro allI impI)
    fix i assume i: "i < ?k"
    then have "takeWhile (\<lambda>x. x \<noteq> Max (set xs)) xs ! i
        \<in> set (takeWhile (\<lambda>x. x \<noteq> Max (set xs)) xs)"
      by (rule nth_mem)
    then have "takeWhile (\<lambda>x. x \<noteq> Max (set xs)) xs ! i \<noteq> Max (set xs)"
      by (rule set_takeWhileD [THEN conjunct2])
    then have ne: "xs ! i \<noteq> Max (set xs)"
      using i by (simp add: takeWhile_nth)
    have "xs ! i \<in> set xs" using i lt by simp
    then have "xs ! i \<le> Max (set xs)" by simp
    then show "xs ! i < xs ! ?k" using ne at by simp
  qed
  show ?thesis using assms lt at before by (simp add: argmax_def)
qed

lemma store_suggestions_snd:
  assumes "\<forall>i\<in>set is. i < length top_guesses \<and> i < length top_ent"
  shows "snd (store_suggestions is top_guesses top_ent sugg) k
     = (if k \<in> set is then Some (top_guesses ! k, top_ent ! k) else sugg k)"
  using assms by (induction "is" arbitrary: sugg) auto

lemma optimal_guess_ranked:
  assumes p: "length possible_words \<noteq> 1"
    and w: "get_weights possible_words priors = Inr weights"
    and e: "get_entropies d allowed_words possible_words weights = Inr ents"
    and ten: "10 \<le> length allowed_words"
  shows "\<exists>k. argmax ents = Inr k \<and>
           fst (optimal_guess d allowed_words possible_words priors st) = Inr (allowed_words ! k)"
    and "\<forall>i<10. st_suggestions (snd (optimal_guess d allowed_words possible_words priors st)) i
           = Some (allowed_words ! (rev (sort (last_ten (argsort ents))) ! i),
                   last_ten (sort ents) ! i)"
proof -
  have len: "length ents = length allowed_words" using e by (rule get_entropies_length)
  then have ne: "ents \<noteq> []" using ten by auto
  obtain k where k: "argmax ents = Inr k" using argmax_less [OF ne] by blast
  let ?tg = "map (\<lambda>num. allowed_words ! num) (rev (sort (last_ten (argsort ents))))"
  let ?te = "last_ten (sort ents)"
  have stored: "fst (store_suggestions [0..<10] ?tg ?te Map.empty) = None"
    using len ten by (simp add: top_ten_stored)
  have lens: "length ?tg = 10" "length ?te = 10"
    using len ten by (simp_all add: length_last_ten length_argsort)
  have og: "optimal_guess d allowed_words possible_words priors st
      = (Inr (allowed_words ! k),
         st\<lparr>st_suggestions := snd (store_suggestions [0..<10] ?tg ?te Map.empty)\<rparr>)"
    using p w e stored k by (simp add: optimal_guess_def Let_def)
  show "\<exists>k. argmax ents = Inr k \<and>
           fst (optimal_guess d allowed_words possible_words priors st) = Inr (allowed_words ! k)"
    using k og by simp
  have inr: "\<forall>i\<in>set [0..<10]. i < length ?tg \<and> i < length ?te" using lens by simp
  show "\<forall>i<10. st_suggestions (snd (optimal_guess d allowed_words possible_words priors st)) i
           = Some (allowed_words ! (rev (sort (last_ten (argsort ents))) ! i),
                   last_ten (sort ents) ! i)"
  proof (intro allI impI)
    fix i :: nat assume i: "i < 10"
    have "i < length (rev (sort (last_ten (argsort ents))))" using lens(1) i by simp
    then have "?tg ! i = allowed_words ! (rev (sort (last_ten (argsort ents))) ! i)"
      by (rule nth_map)
    then show "st_suggestions (snd (optimal_guess d allowed_words possible_words priors st)) i
           = Some (allowed_words ! (rev (sort (last_ten (argsort ents))) ! i),
                   last_ten (sort ents) ! i)"
      unfolding og using store_suggestions_snd [OF inr, of Map.empty i] i by simp
  qed
qed




section \<open>Proofs: the concrete inputs\<close>

lemma ten_cache_consistent: "cache_consistent ten_words ten_cache"
  by code_simp

lemma example_words_five: "\<forall>w\<in>set example_words. length w = 5"
  by (simp add: example_words_def)

lemma ten_words_five: "\<forall>w\<in>set ten_words. length w = 5"
  by (simp add: ten_words_def)

lemma entr_half: "entr (1 / 2) = ln 2 / 2"
  by (simp add: entr_def ln_div)

lemma sum_list_entr_zero: "sum_list (map entr (replicate n 0)) = 0"
  by (induction n) (simp_all add: entr_zero)

lemma entropy_two_even:
  assumes p: "unat p < 243" and q: "unat q < 243"
  shows "entropy (row_distribution [p, q] [1 / 2, 1 / 2]) = (if p = q then 0 else 1)"
proof (cases "p = q")
  case True
  have "entropy (row_distribution [p, q] [1 / 2, 1 / 2]) = 0"
    using row_entropy(2) [of "[p, q]" "[1 / 2, 1 / 2]"] p q True
    by (simp add: nth_Cons split: nat.splits)
  then show ?thesis using True by simp
next
  case False
  then have ne: "unat p \<noteq> unat q" by (simp add: word_unat_eq_iff)
  let ?z = "replicate 243 (0::real)"
  have row: "row_distribution [p, q] [1 / 2, 1 / 2] = ?z[unat p := 1 / 2, unat q := 1 / 2]"
    using p q ne by (simp add: row_distribution_def)
  have total: "sum_list (?z[unat p := 1 / 2, unat q := 1 / 2]) = 1"
    using p q ne by (simp add: sum_list_update_real sum_list_replicate)
  have "map entr (?z[unat p := 1 / 2, unat q := 1 / 2])
      = (map entr ?z)[unat p := entr (1 / 2), unat q := entr (1 / 2)]"
    by (simp only: map_update)
  then have "sum_list (map entr (?z[unat p := 1 / 2, unat q := 1 / 2])) = ln 2"
    using p q ne
    by (simp add: sum_list_update_real sum_list_entr_zero entr_half entr_zero del: map_replicate)
  then have "entropy (?z[unat p := 1 / 2, unat q := 1 / 2]) = 1"
    unfolding entropy_def Let_def total by simp
  then show ?thesis using False row by simp
qed

lemma ten_weights: "get_weights [''MATCH'', ''WATCH''] ten_priors = Inr [1 / 2, 1 / 2]"
  by (simp add: get_weights_def ten_priors_def)

lemma ten_matrix:
  "map (\<lambda>g. map (\<lambda>a. grid ten_cache ! the (words_to_index ten_cache g)
                         ! the (words_to_index ten_cache a)) [''MATCH'', ''WATCH'']) ten_words
   = [[10, 10], [36, 36], [64, 64], [0, 0], [0, 0], [0, 0], [1, 1], [9, 9],
      [242, 240], [240, 242]]"
  by code_simp

lemma ten_entropies:
  "get_entropies ten_cache ten_words [''MATCH'', ''WATCH''] [1 / 2, 1 / 2]
     = Inr [0, 0, 0, 0, 0, 0, 0, 0, 1, 1]"
proof -
  let ?G = "\<lambda>g a. grid ten_cache ! the (words_to_index ten_cache g)
                     ! the (words_to_index ten_cache a)"
  have sub: "set [''MATCH'', ''WATCH''] \<subseteq> set ten_words" by (simp add: ten_words_def)
  have "get_entropies ten_cache ten_words [''MATCH'', ''WATCH''] [1 / 2, 1 / 2]
      = Inr (map (\<lambda>g. entropy (row_distribution (map (?G g) [''MATCH'', ''WATCH'']) [1 / 2, 1 / 2]))
               ten_words)"
    using get_entropies_consistent [OF ten_cache_consistent ten_words_five subset_refl sub,
        of "[1 / 2, 1 / 2]"] by simp
  also have "map (\<lambda>g. entropy (row_distribution (map (?G g) [''MATCH'', ''WATCH'']) [1 / 2, 1 / 2]))
               ten_words
      = map (\<lambda>pats. entropy (row_distribution pats [1 / 2, 1 / 2]))
          (map (\<lambda>g. map (?G g) [''MATCH'', ''WATCH'']) ten_words)"
    by (simp only: map_map comp_def)
  also have "\<dots> = [0, 0, 0, 0, 0, 0, 0, 0, 1, 1]"
    unfolding ten_matrix by (simp add: entropy_two_even)
  finally show ?thesis .
qed

lemma ten_ranking:
  "last_ten (sort [0, 0, 0, 0, 0, 0, 0, 0, 1, 1 :: real]) = [0, 0, 0, 0, 0, 0, 0, 0, 1, 1]"
  "rev (sort (last_ten (argsort [0, 0, 0, 0, 0, 0, 0, 0, 1, 1 :: real])))
     = [9, 8, 7, 6, 5, 4, 3, 2, 1, 0]"
  "argmax [0, 0, 0, 0, 0, 0, 0, 0, 1, 1 :: real] = Inr 8"
  by code_simp+

lemma example_weights: "get_weights [''SLATE'', ''TRACE''] example_priors = Inr [1 / 2, 1 / 2]"
  by (simp add: get_weights_def example_priors_def)


section \<open>Proofs: the memo key\<close>












lemma example_first_call:
  "get_next_guess example_cache [''CRANE''] [187] [''TRACE''] example_session
     = (Inr ''TRACE'',
        example_session\<lparr>st_next_guess_map := [''CRANE12202'' \<mapsto> ''TRACE'']\<rparr>)"
proof -
  have k: "phash_of [''CRANE''] [187] = ''CRANE12202''" by code_simp
  show ?thesis
    by (simp add: get_next_guess_def k optimal_guess_def example_session_def)
qed



text \<open>
  \<^verbatim>\<open>zip\<close> stops at the shorter list, and the key has no separator: two lists of
  different length, or a guess that has not five letters, can give the key of another
  history.
\<close>

lemma phash_of_truncates:
  "phash_of [''CRANE'', ''SLATE''] [187] = phash_of [''CRANE''] [187]"
  by code_simp

lemma phash_of_no_separator:
  "phash_of [''CRANE'', ''SLATE''] [0, 0] = phash_of [''CRANE00000SLATE''] [0]"
  by code_simp

section \<open>Proofs: the priors and the input of a guess\<close>







lemma priors_overflow_example:
  "get_frequency_based_priors example_freq_map 0 2000 = Inl OverflowError"
  by (simp add: get_frequency_based_priors_def example_freq_map_def argsort_def linspace_def
      sigmoid_def exp_max_def Let_def)

lemma rejected_guess_is_recorded:
  assumes "length (upper (st_guess st)) \<noteq> 5 \<or> upper (st_guess st) \<notin> set (st_DICT_GUESSING st)"
  shows "\<exists>message. input_guess st
     = (Inr (Some message),
        st\<lparr>st_guesses := st_guesses st @ [upper (st_guess st)], st_guess := ''''\<rparr>)"
  using assms by (auto simp: input_guess_def Let_def)

section \<open>Claims about the Pattern Engine\<close>

lemma full_pattern_speed_erase:
  "full_pattern ''SPEED'' ''ERASE'' = [MISPLACED, 0, MISPLACED, MISPLACED, 0]"
  by code_simp

lemma full_pattern_allow_llama:
  "full_pattern ''ALLOW'' ''LLAMA'' = [MISPLACED, EXACT, MISPLACED, 0, 0]"
  by code_simp

text \<open>
  Claim C1. For a guess and an answer of equal length, the colour vector behind the pattern
  that \<^verbatim>\<open>generate_pattern_matrix\<close> returns claims every letter occurrence of the answer at
  most once. A position is EXACT exactly when guess and answer agree there. There is a
  one-to-one assignment \<open>m\<close> of the positions that are not ABSENT to positions of the
  answer that hold the same letter; an EXACT position is assigned to itself, a MISPLACED
  one elsewhere. So, for every letter \<open>c\<close>, the number of guess positions holding \<open>c\<close>
  that are not ABSENT is at most the number of occurrences of \<open>c\<close> in the answer:
  further copies of \<open>c\<close> in the guess stay ABSENT.
\<close>

theorem answer_letters_claimed_once:
  assumes "length guess = length answer"
  shows "generate_pattern_matrix guess answer
           = Inr (dot (full_pattern guess answer) (powers_of_three (length guess))) \<and>
         (\<forall>a<length guess. full_pattern guess answer ! a = EXACT \<longleftrightarrow> guess ! a = answer ! a) \<and>
         (\<exists>m. inj_on m {a. a < length guess \<and> full_pattern guess answer ! a \<noteq> 0} \<and>
              (\<forall>a<length guess. full_pattern guess answer ! a \<noteq> 0 \<longrightarrow>
                 m a < length answer \<and> answer ! (m a) = guess ! a \<and>
                 (full_pattern guess answer ! a = EXACT \<longleftrightarrow> m a = a))) \<and>
         (\<forall>c. length (filter (\<lambda>a. guess ! a = c \<and> full_pattern guess answer ! a \<noteq> 0)
                         [0..<length guess])
               \<le> count_list answer c)"
proof -
  have le: "length guess \<le> length answer" using assms by simp
  have pat: "generate_pattern_matrix guess answer
           = Inr (dot (full_pattern guess answer) (powers_of_three (length guess)))"
    using assms by (simp add: generate_pattern_matrix_def)
  have exact: "\<forall>a<length guess. full_pattern guess answer ! a = EXACT \<longleftrightarrow> guess ! a = answer ! a"
    using full_pattern_exact_iff [OF le] by simp
  have matching: "\<exists>m. inj_on m {a. a < length guess \<and> full_pattern guess answer ! a \<noteq> 0} \<and>
              (\<forall>a<length guess. full_pattern guess answer ! a \<noteq> 0 \<longrightarrow>
                 m a < length answer \<and> answer ! (m a) = guess ! a \<and>
                 (full_pattern guess answer ! a = EXACT \<longleftrightarrow> m a = a))"
    using full_pattern_matching [OF le] assms by simp
  have count: "\<forall>c. length (filter (\<lambda>a. guess ! a = c \<and> full_pattern guess answer ! a \<noteq> 0)
                         [0..<length guess])
               \<le> count_list answer c"
    using claimed_count [OF assms] by simp
  show ?thesis using pat exact matching count by blast
qed

text \<open>
  The two duplicate-letter cases that the specification names: the guess SPEED against ERASE
  gives yellow, grey, yellow, yellow, grey (pattern 37), and ALLOW against LLAMA gives
  yellow, green, yellow, grey, grey (pattern 16).
\<close>

theorem answer_letters_claimed_once_witness:
  "length ''SPEED'' = length ''ERASE'' \<and>
   generate_pattern_matrix ''SPEED'' ''ERASE'' = Inr 37 \<and>
   full_pattern ''SPEED'' ''ERASE'' = [MISPLACED, 0, MISPLACED, MISPLACED, 0] \<and>
   length (filter (\<lambda>a. ''SPEED'' ! a = CHR ''E'' \<and> full_pattern ''SPEED'' ''ERASE'' ! a \<noteq> 0)
             [0..<length ''SPEED''])
     \<le> count_list ''ERASE'' CHR ''E'' \<and>
   generate_pattern_matrix ''ALLOW'' ''LLAMA'' = Inr 16 \<and>
   full_pattern ''ALLOW'' ''LLAMA'' = [MISPLACED, EXACT, MISPLACED, 0, 0] \<and>
   length (filter (\<lambda>a. ''ALLOW'' ! a = CHR ''L'' \<and> full_pattern ''ALLOW'' ''LLAMA'' ! a \<noteq> 0)
             [0..<length ''ALLOW''])
     \<le> count_list ''LLAMA'' CHR ''L''"
proof -
  have l1: "length ''SPEED'' = length ''ERASE''" by simp
  have l2: "length ''ALLOW'' = length ''LLAMA''" by simp
  have p1: "generate_pattern_matrix ''SPEED'' ''ERASE'' = Inr 37" by code_simp
  have p2: "generate_pattern_matrix ''ALLOW'' ''LLAMA'' = Inr 16" by code_simp
  have c1: "length (filter (\<lambda>a. ''SPEED'' ! a = CHR ''E'' \<and> full_pattern ''SPEED'' ''ERASE'' ! a \<noteq> 0)
             [0..<length ''SPEED''])
     \<le> count_list ''ERASE'' CHR ''E''"
    using answer_letters_claimed_once [OF l1] by blast
  have c2: "length (filter (\<lambda>a. ''ALLOW'' ! a = CHR ''L'' \<and> full_pattern ''ALLOW'' ''LLAMA'' ! a \<noteq> 0)
             [0..<length ''ALLOW''])
     \<le> count_list ''LLAMA'' CHR ''L''"
    using answer_letters_claimed_once [OF l2] by blast
  show ?thesis
    using l1 p1 p2 c1 c2 full_pattern_speed_erase full_pattern_allow_llama
    by (intro conjI)
qed

text \<open>
  Claim C7. For a guess and an answer of five letters the Pattern Engine returns a byte
  whose value is the sum of the five colours times the powers of three, computed in
  \<open>uint8\<close> without wrapping, and at most 242; a word against itself gives 242. This is
  the value of \<^verbatim>\<open>generate_pattern_matrix\<close>, and of \<^verbatim>\<open>get_pattern\<close> on each of its paths:
  with no matrix loaded, with a loaded matrix that lacks one of the words, and with a
  loaded matrix that holds both and is consistent with the direct computation.
\<close>

theorem pattern_is_ternary_byte:
  assumes "length guess = 5" and "length answer = 5"
  shows "\<exists>p. generate_pattern_matrix guess answer = Inr p \<and>
           unat p = (\<Sum>i<5. unat (full_pattern guess answer ! i) * 3 ^ i) \<and>
           unat p \<le> 242 \<and>
           generate_pattern_matrix guess guess = Inr 242 \<and>
           get_pattern None guess answer = Inr p \<and>
           get_pattern None guess guess = Inr 242 \<and>
           (\<forall>d. words_to_index d guess = None \<or> words_to_index d answer = None \<longrightarrow>
                get_pattern (Some d) guess answer = Inr p) \<and>
           (\<forall>ws d. cache_consistent ws d \<and> guess \<in> set ws \<and> answer \<in> set ws \<longrightarrow>
                get_pattern (Some d) guess answer = Inr p \<and>
                get_pattern (Some d) guess guess = Inr 242)"
proof -
  let ?p = "dot (full_pattern guess answer) (powers_of_three 5)"
  have p: "generate_pattern_matrix guess answer = Inr ?p"
    using assms by (simp add: generate_pattern_matrix_def)
  have same: "generate_pattern_matrix guess guess = Inr 242"
    using assms(1) same_word_all_exact [OF assms(1)]
    by (simp add: generate_pattern_matrix_def dot_def powers_of_three_5 EXACT_def)
  have direct: "get_pattern None guess answer = Inr ?p"
    using p by (simp add: get_pattern_def)
  have direct_same: "get_pattern None guess guess = Inr 242"
    using same by (simp add: get_pattern_def)
  have unknown: "\<forall>d. words_to_index d guess = None \<or> words_to_index d answer = None \<longrightarrow>
                get_pattern (Some d) guess answer = Inr ?p"
    using p by (auto simp: get_pattern_def)
  have loaded: "\<forall>ws d. cache_consistent ws d \<and> guess \<in> set ws \<and> answer \<in> set ws \<longrightarrow>
                get_pattern (Some d) guess answer = Inr ?p \<and>
                get_pattern (Some d) guess guess = Inr 242"
  proof (intro allI impI)
    fix ws d
    assume h: "cache_consistent ws d \<and> guess \<in> set ws \<and> answer \<in> set ws"
    have "get_pattern (Some d) guess answer = generate_pattern_matrix guess answer"
      using h by (intro get_pattern_consistent [of ws]) simp_all
    moreover have "get_pattern (Some d) guess guess = generate_pattern_matrix guess guess"
      using h by (intro get_pattern_consistent [of ws]) simp_all
    ultimately show "get_pattern (Some d) guess answer = Inr ?p \<and>
                get_pattern (Some d) guess guess = Inr 242"
      using p same by simp
  qed
  show ?thesis
    using p five_letter_dot [OF assms] same direct direct_same unknown loaded by blast
qed

theorem pattern_is_ternary_byte_witness:
  "length ''CRANE'' = 5 \<and> length ''TRACE'' = 5 \<and>
   cache_consistent example_words example_cache \<and>
   ''CRANE'' \<in> set example_words \<and> ''TRACE'' \<in> set example_words \<and>
   generate_pattern_matrix ''CRANE'' ''TRACE'' = Inr 187 \<and>
   unat (187 :: uint8) = (\<Sum>i<5. unat (full_pattern ''CRANE'' ''TRACE'' ! i) * 3 ^ i) \<and>
   unat (187 :: uint8) \<le> 242 \<and>
   generate_pattern_matrix ''CRANE'' ''CRANE'' = Inr 242 \<and>
   get_pattern None ''CRANE'' ''TRACE'' = Inr 187 \<and>
   get_pattern (Some example_cache) ''CRANE'' ''TRACE'' = Inr 187 \<and>
   get_pattern (Some example_cache) ''CRANE'' ''CRANE'' = Inr 242"
proof -
  have l1: "length ''CRANE'' = 5" and l2: "length ''TRACE'' = 5" by simp_all
  have m1: "''CRANE'' \<in> set example_words" and m2: "''TRACE'' \<in> set example_words"
    by (simp_all add: example_words_def)
  have p: "generate_pattern_matrix ''CRANE'' ''TRACE'' = Inr 187" by code_simp
  obtain q where q: "generate_pattern_matrix ''CRANE'' ''TRACE'' = Inr q"
    and s: "unat q = (\<Sum>i<5. unat (full_pattern ''CRANE'' ''TRACE'' ! i) * 3 ^ i)"
    and b: "unat q \<le> 242"
    and same: "generate_pattern_matrix ''CRANE'' ''CRANE'' = Inr 242"
    and direct: "get_pattern None ''CRANE'' ''TRACE'' = Inr q"
    and loaded: "\<forall>ws d. cache_consistent ws d \<and> ''CRANE'' \<in> set ws \<and> ''TRACE'' \<in> set ws \<longrightarrow>
                get_pattern (Some d) ''CRANE'' ''TRACE'' = Inr q \<and>
                get_pattern (Some d) ''CRANE'' ''CRANE'' = Inr 242"
    using pattern_is_ternary_byte [OF l1 l2] by blast
  have q187: "q = 187" using p q by simp
  have c: "get_pattern (Some example_cache) ''CRANE'' ''TRACE'' = Inr q \<and>
           get_pattern (Some example_cache) ''CRANE'' ''CRANE'' = Inr 242"
    using loaded example_cache_consistent m1 m2 by blast
  show ?thesis
    using l1 l2 example_cache_consistent m1 m2 p s b same direct c unfolding q187
    by (intro conjI) simp_all
qed

section \<open>Claims about the Possibility Reducer\<close>

text \<open>
  Claim C3. With a cache that agrees with the Pattern Engine on the corpus, a guess of the
  corpus and possibilities of the corpus, \<^verbatim>\<open>get_possible_words\<close> returns (no exception)
  exactly the possibilities whose pattern against the guess is the observed pattern, in
  their order. The result is never longer than the input, and an answer whose pattern is
  the observed one stays in it.
\<close>

theorem reducer_keeps_matching_words:
  assumes "cache_consistent ws d" and "guess \<in> set ws" and "set word_list \<subseteq> set ws"
  shows "\<exists>r. get_possible_words d guess pattern word_list = Inr r \<and>
           r = filter (\<lambda>w. generate_pattern_matrix guess w = Inr pattern) word_list \<and>
           length r \<le> length word_list \<and>
           (\<forall>answer\<in>set word_list.
              generate_pattern_matrix guess answer = Inr pattern \<longrightarrow> answer \<in> set r)"
proof -
  let ?f = "\<lambda>a. grid d ! the (words_to_index d guess) ! the (words_to_index d a)"
  have m: "get_pattern_matrix d [guess] word_list = Inr [map ?f word_list]"
    using get_pattern_matrix_consistent [OF assms(1), of "[guess]" word_list] assms by simp
  have r: "get_possible_words d guess pattern word_list
      = Inr (filter (\<lambda>w. ?f w = pattern) word_list)"
    unfolding get_possible_words_def m by (simp add: filter_zip_map)
  have "filter (\<lambda>w. ?f w = pattern) word_list
      = filter (\<lambda>w. generate_pattern_matrix guess w = Inr pattern) word_list"
  proof (rule filter_cong [OF refl])
    fix w assume "w \<in> set word_list"
    then have "w \<in> set ws" using assms(3) by blast
    then show "(?f w = pattern) = (generate_pattern_matrix guess w = Inr pattern)"
      using consistent_lookup [OF assms(1) assms(2)] by simp
  qed
  then show ?thesis using r by simp
qed

theorem reducer_keeps_matching_words_witness:
  "cache_consistent example_words example_cache \<and> ''CRANE'' \<in> set example_words \<and>
   set [''CRANE'', ''SLATE'', ''TRACE''] \<subseteq> set example_words \<and>
   get_possible_words example_cache ''CRANE'' 187 [''CRANE'', ''SLATE'', ''TRACE''] = Inr [''TRACE''] \<and>
   [''TRACE''] = filter (\<lambda>w. generate_pattern_matrix ''CRANE'' w = Inr 187) [''CRANE'', ''SLATE'', ''TRACE''] \<and>
   length [''TRACE''] \<le> length [''CRANE'', ''SLATE'', ''TRACE''] \<and>
   generate_pattern_matrix ''CRANE'' ''TRACE'' = Inr 187 \<and> ''TRACE'' \<in> set [''TRACE'']"
proof -
  have h1: "''CRANE'' \<in> set example_words" by (simp add: example_words_def)
  have h2: "set [''CRANE'', ''SLATE'', ''TRACE''] \<subseteq> set example_words"
    by (simp add: example_words_def)
  have r: "get_possible_words example_cache ''CRANE'' 187 [''CRANE'', ''SLATE'', ''TRACE'']
      = Inr [''TRACE'']"
    by code_simp
  have p: "generate_pattern_matrix ''CRANE'' ''TRACE'' = Inr 187" by code_simp
  show ?thesis
    using reducer_keeps_matching_words [OF example_cache_consistent h1 h2, of 187] r p h1 h2
      example_cache_consistent
    by auto
qed

section \<open>Claims about the Guess Selector\<close>

text \<open>
  Claim C5. With exactly one possible word, \<^verbatim>\<open>optimal_guess\<close> returns that word and leaves
  the session state as it was, whatever the cache, the allowed words and the priors are:
  no weight and no entropy is looked at.
\<close>

theorem singleton_returned_directly:
  "optimal_guess d allowed_words [w] priors st = (Inr w, st)"
  by (simp add: optimal_guess_def)

text \<open>
  Claim C10. When the number of possible words is not one, \<^verbatim>\<open>optimal_guess\<close> reads the
  slots 0 to 9 of its ranked lists. With fewer than ten allowed words it ends in an
  exception; when the weights and the entropies were computed, that exception is the
  IndexError of the missing slot. With ten or more allowed words and the entropies
  computed it returns one of the allowed words.
\<close>

theorem top_ten_slots_need_ten_words:
  assumes "length possible_words \<noteq> 1"
  shows "(length allowed_words < 10 \<longrightarrow>
            (\<exists>e. fst (optimal_guess d allowed_words possible_words priors st) = Inl e)) \<and>
         (\<forall>weights ents.
            get_weights possible_words priors = Inr weights \<longrightarrow>
            get_entropies d allowed_words possible_words weights = Inr ents \<longrightarrow>
            (if length allowed_words < 10
             then fst (optimal_guess d allowed_words possible_words priors st) = Inl IndexError
             else \<exists>g. fst (optimal_guess d allowed_words possible_words priors st) = Inr g \<and>
                      g \<in> set allowed_words))"
proof -
  let ?og = "optimal_guess d allowed_words possible_words priors st"
  have main: "if length allowed_words < 10 then fst ?og = Inl IndexError
      else \<exists>g. fst ?og = Inr g \<and> g \<in> set allowed_words"
    if w: "get_weights possible_words priors = Inr weights"
      and e: "get_entropies d allowed_words possible_words weights = Inr ents"
    for weights ents
  proof -
    have len: "length ents = length allowed_words" using e by (rule get_entropies_length)
    show ?thesis
    proof (cases "length allowed_words < 10")
      case True
      then have "\<not> 10 \<le> length ents" using len by simp
      then show ?thesis
        using True assms w e by (simp add: optimal_guess_def Let_def top_ten_stored)
    next
      case False
      then have ten: "10 \<le> length ents" using len by simp
      then have ne: "ents \<noteq> []" by auto
      obtain k where k: "argmax ents = Inr k" "k < length ents"
        using argmax_less [OF ne] by blast
      have "allowed_words ! k \<in> set allowed_words" using k len by simp
      then show ?thesis
        using False assms w e ten k by (simp add: optimal_guess_def Let_def top_ten_stored)
    qed
  qed
  have short: "\<exists>e. fst ?og = Inl e" if s: "length allowed_words < 10"
  proof (cases "get_weights possible_words priors")
    case (Inl e)
    then show ?thesis using assms by (simp add: optimal_guess_def)
  next
    case (Inr weights)
    show ?thesis
    proof (cases "get_entropies d allowed_words possible_words weights")
      case (Inl e)
      then show ?thesis using assms Inr by (simp add: optimal_guess_def)
    next
      case inr: (Inr ents)
      then show ?thesis using main [OF Inr inr] s by simp
    qed
  qed
  show ?thesis using main short by blast
qed

theorem top_ten_slots_need_ten_words_witness:
  "length [''SLATE'', ''TRACE''] \<noteq> 1 \<and> length example_words < 10 \<and>
   get_weights [''SLATE'', ''TRACE''] example_priors = Inr [1 / 2, 1 / 2] \<and>
   fst (optimal_guess example_cache example_words [''SLATE'', ''TRACE''] example_priors
          example_session) = Inl IndexError"
proof -
  have p: "length [''SLATE'', ''TRACE''] \<noteq> 1" by simp
  have short: "length example_words < 10" by (simp add: example_words_def)
  have sub: "set [''SLATE'', ''TRACE''] \<subseteq> set example_words" by (simp add: example_words_def)
  obtain ents where e: "get_entropies example_cache example_words [''SLATE'', ''TRACE''] [1 / 2, 1 / 2]
      = Inr ents"
    using get_entropies_consistent [OF example_cache_consistent example_words_five subset_refl sub,
        of "[1 / 2, 1 / 2]"] by simp
  have "fst (optimal_guess example_cache example_words [''SLATE'', ''TRACE''] example_priors
          example_session) = Inl IndexError"
    using top_ten_slots_need_ten_words [OF p, of example_words example_cache example_priors
        example_session] example_weights e short by simp
  then show ?thesis using p short example_weights by simp
qed

text \<open>
  Claim C2 asks that every ranked alternative is stored with its own entropy. The function
  stores, in slot \<open>i\<close>, the word of the \<open>i\<close>-th greatest index among the ten best and the
  \<open>i\<close>-th smallest of the ten greatest entropies, two orders that need not agree. On the
  ten-word corpus with the possible words MATCH and WATCH of equal weight the entropies
  are 0 for the first eight words and 1 for MATCH and WATCH; the best guess returned is
  MATCH, of the greatest entropy, but slot 0 holds WATCH with the entropy 0 and slot 9
  holds CRANE with the entropy 1. (With ten allowed words the ten best are all of them, so
  the order in which \<^verbatim>\<open>np.argsort\<close> leaves equal entropies plays no part.)
\<close>

theorem suggestions_pair_words_with_foreign_entropies:
  "get_entropies ten_cache ten_words [''MATCH'', ''WATCH''] [1 / 2, 1 / 2]
     = Inr [0, 0, 0, 0, 0, 0, 0, 0, 1, 1] \<and>
   fst (optimal_guess ten_cache ten_words [''MATCH'', ''WATCH''] ten_priors st) = Inr ''MATCH'' \<and>
   st_suggestions (snd (optimal_guess ten_cache ten_words [''MATCH'', ''WATCH''] ten_priors st)) 0
     = Some (''WATCH'', 0) \<and>
   st_suggestions (snd (optimal_guess ten_cache ten_words [''MATCH'', ''WATCH''] ten_priors st)) 9
     = Some (''CRANE'', 1)"
proof -
  have p: "length [''MATCH'', ''WATCH''] \<noteq> 1" by simp
  have ten: "10 \<le> length ten_words" by (simp add: ten_words_def)
  note r = optimal_guess_ranked [OF p ten_weights ten_entropies ten, of st]
  have best: "fst (optimal_guess ten_cache ten_words [''MATCH'', ''WATCH''] ten_priors st)
      = Inr ''MATCH''"
    using r(1) unfolding ten_ranking by (simp add: ten_words_def)
  have s0: "st_suggestions (snd (optimal_guess ten_cache ten_words [''MATCH'', ''WATCH''] ten_priors st)) 0
     = Some (''WATCH'', 0)"
    using r(2) [rule_format, of 0] unfolding ten_ranking by (simp add: ten_words_def)
  have s9: "st_suggestions (snd (optimal_guess ten_cache ten_words [''MATCH'', ''WATCH''] ten_priors st)) 9
     = Some (''CRANE'', 1)"
    using r(2) [rule_format, of 9] unfolding ten_ranking by (simp add: ten_words_def)
  show ?thesis using ten_entropies best s0 s9 by simp
qed

section \<open>Claims about the memoised selection\<close>




section \<open>Claims about the Frequency Prior Model\<close>




section \<open>Claims about the input of a guess\<close>

text \<open>
  Claim C9 asks that a rejected guess leaves the game state as it was. \<^verbatim>\<open>input_guess\<close>
  appends the guess to the history before it checks it: the guess ZZZZZ, not a word of the
  corpus, and the guess CRAN, of four letters, are answered with the error message and
  stay in \<open>st_guesses\<close>; the letter strings, the table and the game-over flags are
  unchanged. The next run of the script hands the last guess of the history to
  \<^verbatim>\<open>get_possible_words\<close>, which raises KeyError for ZZZZZ.
\<close>

theorem rejected_guess_enters_history:
  "input_guess (example_session\<lparr>st_guess := ''zzzzz''\<rparr>)
     = (Inr (Some ''Please enter a valid guess.''),
        example_session\<lparr>st_guesses := [''ZZZZZ'']\<rparr>) \<and>
   st_guesses (snd (input_guess (example_session\<lparr>st_guess := ''zzzzz''\<rparr>)))
     \<noteq> st_guesses (example_session\<lparr>st_guess := ''zzzzz''\<rparr>) \<and>
   input_guess (example_session\<lparr>st_guess := ''cran''\<rparr>)
     = (Inr (Some ''Please enter a 5-letter word.''),
        example_session\<lparr>st_guesses := [''CRAN'']\<rparr>) \<and>
   get_possible_words example_cache ''ZZZZZ'' 0 example_words = Inl KeyError"
proof -
  have u1: "upper ''zzzzz'' = ''ZZZZZ''" by code_simp
  have u2: "upper ''cran'' = ''CRAN''" by code_simp
  have a: "input_guess (example_session\<lparr>st_guess := ''zzzzz''\<rparr>)
     = (Inr (Some ''Please enter a valid guess.''),
        example_session\<lparr>st_guesses := [''ZZZZZ'']\<rparr>)"
    by (simp add: input_guess_def Let_def u1 example_session_def example_words_def)
  have b: "input_guess (example_session\<lparr>st_guess := ''cran''\<rparr>)
     = (Inr (Some ''Please enter a 5-letter word.''),
        example_session\<lparr>st_guesses := [''CRAN'']\<rparr>)"
    by (simp add: input_guess_def Let_def u2 example_session_def example_words_def)
  have c: "get_possible_words example_cache ''ZZZZZ'' 0 example_words = Inl KeyError"
    by (simp add: get_possible_words_def get_pattern_matrix_def example_cache_def)
  have d: "st_guesses (snd (input_guess (example_session\<lparr>st_guess := ''zzzzz''\<rparr>)))
     \<noteq> st_guesses (example_session\<lparr>st_guess := ''zzzzz''\<rparr>)"
    unfolding a by (simp add: example_session_def)
  show ?thesis by (intro conjI a d b c)
qed

end
